theory Spec2Isabelle
  imports Complex_Main "HOL-Library.Product_Lexorder"
begin

section \<open>Data model\<close>

text \<open>
  Python floats are idealised as reals; \<open>float('inf')\<close>, which the code uses as a PET value
  and as a sort key, is the extra element \<open>PosInf\<close>. Sample times and coordinates are
  finite numbers.
\<close>

datatype pyfloat = Fin real | PosInf

text \<open>The order of floats: every finite value is below \<open>float('inf')\<close>.\<close>

instantiation pyfloat :: linorder
begin

fun less_eq_pyfloat :: "pyfloat \<Rightarrow> pyfloat \<Rightarrow> bool" where
  "less_eq_pyfloat (Fin a) (Fin b) = (a \<le> b)"
| "less_eq_pyfloat a PosInf = True"
| "less_eq_pyfloat PosInf (Fin b) = False"

definition less_pyfloat :: "pyfloat \<Rightarrow> pyfloat \<Rightarrow> bool" where
  "less_pyfloat a b = (a \<le> b \<and> \<not> b \<le> a)"

instance
proof
  fix x y z :: pyfloat
  show "(x < y) = (x \<le> y \<and> \<not> y \<le> x)" by (simp add: less_pyfloat_def)
  show "x \<le> x" by (cases x) simp_all
  show "x \<le> y \<Longrightarrow> y \<le> z \<Longrightarrow> x \<le> z" by (cases x; cases y; cases z) simp_all
  show "x \<le> y \<Longrightarrow> y \<le> x \<Longrightarrow> x = y" by (cases x; cases y) simp_all
  show "x \<le> y \<or> y \<le> x" by (cases x; cases y) auto
qed

end

datatype py_error = AttributeError | TypeError | ValueError | UnboundLocalError

type_synonym point = "real \<times> real"

type_synonym polygon = "point list"

text \<open>
  A trajectory point is a Python dict. The keys the code reads or writes are
  \<open>'time'\<close>, \<open>'x'\<close>, \<open>'y'\<close>, \<open>'speed'\<close> and \<open>'id'\<close>; a field is \<open>None\<close> when
  the key is missing from the dict. An element of a trajectory that is not a dict (and has
  no \<open>setdefault\<close> method: \<open>None\<close>, a number, a tuple, a string) is \<open>NotDict\<close>.
\<close>

record point_data =
  p_time :: "real option"
  p_x :: "real option"
  p_y :: "real option"
  p_speed :: "real option"
  p_id :: "string option"

datatype traj_elem = Dict point_data | NotDict

type_synonym trajectory = "traj_elem list"

type_synonym interval = "real option \<times> real option"

text \<open>
  The module-level flag \<open>SHAPELY_AVAILABLE\<close> and the library behind it: \<open>None\<close> when the
  import failed, \<open>Some contains\<close> when it succeeded, where \<open>contains vs pt\<close> is the outcome
  of the whole \<open>try\<close> block of \<open>is_inside_polygon\<close> (building the polygon, repairing it
  with \<open>buffer(0)\<close>, \<open>poly.contains\<close>, and \<open>False\<close> on any exception). Shapely is an
  external library, so it is a parameter.
\<close>

type_synonym shapely = "(polygon \<Rightarrow> point \<Rightarrow> bool) option"

section \<open>pet\_calculator.py\<close>

subsection \<open>is\_inside\_polygon\<close>

text \<open>
  One iteration of the manual ray casting loop. The loop state is \<open>inside\<close>, the previous
  vertex \<open>(p1x, p1y)\<close> and the local variable \<open>xinters\<close>, which is unbound until its first
  assignment: reading it unbound raises \<open>UnboundLocalError\<close>. The \<open>or\<close> is short-circuit,
  so \<open>xinters\<close> is read only when \<open>p1x \<noteq> p2x\<close>.
\<close>

fun ray_step :: "point \<Rightarrow> bool \<times> point \<times> real option \<Rightarrow> point
    \<Rightarrow> py_error + bool \<times> point \<times> real option" where
  "ray_step (x, y) (inside, (p1x, p1y), xinters) (p2x, p2y) =
     (if y > min p1y p2y then
        (if y \<le> max p1y p2y then
           (if x \<le> max p1x p2x then
              (let xinters' = (if p1y \<noteq> p2y
                               then Some ((y - p1y) * (p2x - p1x) / (p2y - p1y) + p1x)
                               else xinters)
               in if p1x = p2x then Inr (\<not> inside, (p2x, p2y), xinters')
                  else (case xinters' of
                          None \<Rightarrow> Inl UnboundLocalError
                        | Some xi \<Rightarrow> Inr (if x \<le> xi then \<not> inside else inside, (p2x, p2y), xinters')))
            else Inr (inside, (p2x, p2y), xinters))
         else Inr (inside, (p2x, p2y), xinters))
      else Inr (inside, (p2x, p2y), xinters))"

fun ray_loop :: "point \<Rightarrow> point list \<Rightarrow> bool \<times> point \<times> real option \<Rightarrow> py_error + bool" where
  "ray_loop pt [] (inside, p1, xinters) = Inr inside"
| "ray_loop pt (p2 # rest) st =
     (case ray_step pt st p2 of
        Inl e \<Rightarrow> Inl e
      | Inr st' \<Rightarrow> ray_loop pt rest st')"

text \<open>
  The manual branch visits \<open>polygon_vertices[i % n]\<close> for \<open>i\<close> in \<open>range(n + 1)\<close>, starting
  with \<open>p1 = polygon_vertices[0]\<close>.
\<close>

definition is_inside_polygon :: "shapely \<Rightarrow> point \<Rightarrow> polygon \<Rightarrow> py_error + bool" where
  "is_inside_polygon shapely_lib pt polygon_vertices =
     (if polygon_vertices = [] then Inr False
      else (case shapely_lib of
              Some contains \<Rightarrow>
                (if length polygon_vertices < 3 then Inr False
                 else Inr (contains polygon_vertices pt))
            | None \<Rightarrow>
                (if length polygon_vertices < 3 then Inr False
                 else ray_loop pt
                        (map (\<lambda>i. polygon_vertices ! (i mod length polygon_vertices))
                           [0 ..< length polygon_vertices + 1])
                        (False, polygon_vertices ! 0, None))))"

subsection \<open>\_get\_entry\_exit\_times\<close>

text \<open>
  The inner helper \<open>get_coords_time\<close>: \<open>TypeError\<close> for an element that is not a dict,
  \<open>ValueError\<close> for a dict without \<open>'x'\<close>, \<open>'y'\<close> or \<open>'time'\<close>.
\<close>

fun get_coords_time :: "traj_elem \<Rightarrow> py_error + point \<times> real" where
  "get_coords_time NotDict = Inl TypeError"
| "get_coords_time (Dict d) =
     (case (p_x d, p_y d, p_time d) of
        (Some x, Some y, Some t) \<Rightarrow> Inr ((x, y), t)
      | _ \<Rightarrow> Inl ValueError)"

text \<open>
  Control flow of a function body that can raise, return early, or go on to the next
  statement with its local variables.
\<close>

datatype 'a flow = Raise py_error | Return interval | Next 'a

fun and_then :: "'a flow \<Rightarrow> ('a \<Rightarrow> 'b flow) \<Rightarrow> 'b flow" where
  "and_then (Raise e) f = Raise e"
| "and_then (Return r) f = Return r"
| "and_then (Next a) f = f a"

text \<open>
  The \<open>for i in range(1, len(trajectory))\<close> loop. \<open>prev_pt\<close> is \<open>trajectory[i-1]\<close>, the head
  of the list is \<open>trajectory[i]\<close>. Both exceptions of \<open>get_coords_time\<close> are caught and
  return \<open>(None, None)\<close>; \<open>is_inside_polygon\<close> is called outside the \<open>try\<close>. A
  true-to-false transition sets \<open>exit_time\<close> and breaks out of the loop.
\<close>

fun scan :: "shapely \<Rightarrow> polygon \<Rightarrow> traj_elem \<Rightarrow> trajectory
    \<Rightarrow> real option \<times> real option \<times> bool \<Rightarrow> (real option \<times> real option \<times> bool) flow" where
  "scan sh area_polygon prev_pt [] st = Next st"
| "scan sh area_polygon prev_pt (curr_pt # rest) (entry_time, exit_time, currently_inside) =
     (case get_coords_time prev_pt of
        Inl e \<Rightarrow> Return (None, None)
      | Inr (_, t_prev) \<Rightarrow>
          (case get_coords_time curr_pt of
             Inl e \<Rightarrow> Return (None, None)
           | Inr (p_curr_coords, t_curr) \<Rightarrow>
               (case is_inside_polygon sh p_curr_coords area_polygon of
                  Inl e \<Rightarrow> Raise e
                | Inr is_p_curr_inside \<Rightarrow>
                    if \<not> currently_inside \<and> is_p_curr_inside then
                      scan sh area_polygon curr_pt rest
                        (if entry_time = None then Some ((t_prev + t_curr) / 2) else entry_time,
                         exit_time, True)
                    else if currently_inside \<and> \<not> is_p_curr_inside then
                      Next (entry_time, Some ((t_prev + t_curr) / 2), False)
                    else scan sh area_polygon curr_pt rest (entry_time, exit_time, currently_inside))))"

text \<open>Lines 104-110: the agent is still inside when the trajectory ends.\<close>

definition exit_at_end :: "trajectory \<Rightarrow> real option \<times> real option \<times> bool
    \<Rightarrow> (real option \<times> real option) flow" where
  "exit_at_end trajectory st =
     (case st of (entry_time, exit_time, currently_inside) \<Rightarrow>
        if currently_inside \<and> entry_time \<noteq> None \<and> exit_time = None then
          (case get_coords_time (last trajectory) of
             Inl e \<Rightarrow> Return (entry_time, None)
           | Inr (_, exit_time_val) \<Rightarrow> Next (entry_time, Some exit_time_val))
        else Next (entry_time, exit_time))"

text \<open>Lines 112-113: a single sample that is inside.\<close>

definition single_sample :: "trajectory \<Rightarrow> real option \<times> real option
    \<Rightarrow> (real option \<times> real option) flow" where
  "single_sample trajectory st =
     (case st of (entry_time, exit_time) \<Rightarrow>
        if length trajectory = 1 \<and> entry_time \<noteq> None then Next (entry_time, entry_time)
        else Next (entry_time, exit_time))"

text \<open>
  Lines 115-124: an exit without an entry. The \<open>except\<close> clause catches \<open>ValueError\<close> and
  \<open>TypeError\<close> only.
\<close>

definition implied_entry :: "shapely \<Rightarrow> trajectory \<Rightarrow> polygon \<Rightarrow> real option \<times> real option
    \<Rightarrow> (real option \<times> real option) flow" where
  "implied_entry sh trajectory area_polygon st =
     (case st of (entry_time, exit_time) \<Rightarrow>
        if exit_time \<noteq> None \<and> entry_time = None then
          (case get_coords_time (hd trajectory) of
             Inl e \<Rightarrow> Return (None, None)
           | Inr (p_first_coords, t_first) \<Rightarrow>
               (case is_inside_polygon sh p_first_coords area_polygon of
                  Inl e \<Rightarrow> (if e = ValueError \<or> e = TypeError then Return (None, None) else Raise e)
                | Inr b \<Rightarrow> (if b then Next (Some t_first, exit_time) else Return (None, None))))
        else Next (entry_time, exit_time))"

text \<open>Lines 126-130: an exit before the entry is rejected.\<close>

definition check_order :: "real option \<times> real option \<Rightarrow> (real option \<times> real option) flow" where
  "check_order st =
     (case st of
        (Some entry_time, Some exit_time) \<Rightarrow>
          if exit_time < entry_time then Return (None, None)
          else Return (Some entry_time, Some exit_time)
      | (entry_time, exit_time) \<Rightarrow> Return (entry_time, exit_time))"

fun result_of :: "(real option \<times> real option) flow \<Rightarrow> py_error + interval" where
  "result_of (Raise e) = Inl e"
| "result_of (Return r) = Inr r"
| "result_of (Next r) = Inr r"

text \<open>Lines 76-83: the first sample, inside a \<open>try\<close> that catches \<open>ValueError\<close> and \<open>TypeError\<close>.\<close>

definition first_sample :: "shapely \<Rightarrow> trajectory \<Rightarrow> polygon
    \<Rightarrow> (real option \<times> real option \<times> bool) flow" where
  "first_sample sh trajectory area_polygon =
     (case get_coords_time (hd trajectory) of
        Inl e \<Rightarrow> Return (None, None)
      | Inr (p_start_coords, t_start) \<Rightarrow>
          (case is_inside_polygon sh p_start_coords area_polygon of
             Inl e \<Rightarrow> (if e = ValueError \<or> e = TypeError then Return (None, None) else Raise e)
           | Inr b \<Rightarrow> (if b then Next (Some t_start, None, True) else Next (None, None, False))))"

definition get_entry_exit_times :: "shapely \<Rightarrow> trajectory \<Rightarrow> polygon \<Rightarrow> py_error + interval" where
  "get_entry_exit_times sh trajectory area_polygon =
     (if trajectory = [] \<or> area_polygon = [] \<or> length area_polygon < 3 then Inr (None, None)
      else result_of
        (and_then (first_sample sh trajectory area_polygon) (\<lambda>st.
         and_then (scan sh area_polygon (hd trajectory) (tl trajectory) st) (\<lambda>st.
         and_then (exit_at_end trajectory st) (\<lambda>st.
         and_then (single_sample trajectory st) (\<lambda>st.
         and_then (implied_entry sh trajectory area_polygon st) check_order))))))"

subsection \<open>calculate\_pet\<close>

text \<open>\<open>point.setdefault('speed', 0); point.setdefault('id', 'dummy')\<close> on a dict.\<close>

definition setdefaults :: "point_data \<Rightarrow> point_data" where
  "setdefaults d =
     d\<lparr>p_speed := (case p_speed d of None \<Rightarrow> Some 0 | Some s \<Rightarrow> Some s),
        p_id := (case p_id d of None \<Rightarrow> Some ''dummy'' | Some s \<Rightarrow> Some s)\<rparr>"

text \<open>
  The inner \<open>for point in traj_list\<close> loop. It mutates the caller's dicts in place, so the
  model returns the trajectory as the loop leaves it: on an element without
  \<open>setdefault\<close> the loop raises \<open>AttributeError\<close>, the points before it are already
  updated and the rest is untouched.
\<close>

fun normalize :: "trajectory \<Rightarrow> trajectory \<times> py_error option" where
  "normalize [] = ([], None)"
| "normalize (NotDict # rest) = (NotDict # rest, Some AttributeError)"
| "normalize (Dict d # rest) =
     (case normalize rest of (rest', err) \<Rightarrow> (Dict (setdefaults d) # rest', err))"

text \<open>Lines 145-161, once all four bounds are present.\<close>

definition pet_of_times :: "real \<Rightarrow> real \<Rightarrow> real \<Rightarrow> real \<Rightarrow> real" where
  "pet_of_times T_veh_entry T_veh_exit T_ped_entry T_ped_exit =
     (let latest_entry = max T_veh_entry T_ped_entry;
          earliest_exit = min T_veh_exit T_ped_exit
      in if latest_entry < earliest_exit then latest_entry - earliest_exit
         else if T_veh_exit \<le> T_ped_entry then T_ped_entry - T_veh_exit
         else if T_ped_exit \<le> T_veh_entry then T_veh_entry - T_ped_exit
         else 0)"

definition pet_of_intervals :: "interval \<Rightarrow> interval \<Rightarrow> pyfloat" where
  "pet_of_intervals veh ped =
     (case (veh, ped) of
        ((Some T_veh_entry, Some T_veh_exit), (Some T_ped_entry, Some T_ped_exit)) \<Rightarrow>
          Fin (pet_of_times T_veh_entry T_veh_exit T_ped_entry T_ped_exit)
      | _ \<Rightarrow> PosInf)"

text \<open>
  \<open>calculate_pet\<close> returns its result (a PET value or the exception that left the
  function) together with the two trajectories as the call leaves them.
\<close>

definition calculate_pet :: "shapely \<Rightarrow> trajectory \<Rightarrow> trajectory \<Rightarrow> polygon
    \<Rightarrow> (py_error + pyfloat) \<times> trajectory \<times> trajectory" where
  "calculate_pet sh vehicle_trajectory pedestrian_trajectory encroachment_area_polygon =
     (case normalize vehicle_trajectory of
        (veh', Some e) \<Rightarrow> (Inl e, veh', pedestrian_trajectory)
      | (veh', None) \<Rightarrow>
          (case normalize pedestrian_trajectory of
             (ped', Some e) \<Rightarrow> (Inl e, veh', ped')
           | (ped', None) \<Rightarrow>
               (case get_entry_exit_times sh veh' encroachment_area_polygon of
                  Inl e \<Rightarrow> (Inl e, veh', ped')
                | Inr veh_times \<Rightarrow>
                    (case get_entry_exit_times sh ped' encroachment_area_polygon of
                       Inl e \<Rightarrow> (Inl e, veh', ped')
                     | Inr ped_times \<Rightarrow> (Inr (pet_of_intervals veh_times ped_times), veh', ped')))))"

section \<open>optimizer.py\<close>

text \<open>The configuration constants of the module.\<close>

definition AV_MIN_SPEED_MPS :: real where
  "AV_MIN_SPEED_MPS = 5"

definition AV_MAX_SPEED_MPS :: real where
  "AV_MAX_SPEED_MPS = 15"

definition NUM_AV_SPEED_STEPS :: nat where
  "NUM_AV_SPEED_STEPS = 3"

definition N_SIM_RUNS_PER_AV_SPEED :: nat where
  "N_SIM_RUNS_PER_AV_SPEED = 5"

definition PET_CONSTRAINT_THRESHOLD :: real where
  "PET_CONSTRAINT_THRESHOLD = 2"

definition PROB_CONSTRAINT_SATISFIED_THRESHOLD :: real where
  "PROB_CONSTRAINT_SATISFIED_THRESHOLD = 9 / 10"

text \<open>
  The first three results of \<open>execute_single_sumo_run\<close>: \<open>pet1\<close>, \<open>pet2\<close> and the J2
  traversal time, which is \<open>-1.0\<close> when it could not be measured. The run itself (the SUMO
  simulation and the sampled pedestrian speeds) is outside the code, so the optimizer takes
  it as a parameter \<open>execute av_speed i_run\<close>. A run that failed returns \<open>degraded\<close>.
\<close>

type_synonym trial = "pyfloat \<times> pyfloat \<times> real"

definition degraded :: trial where
  "degraded = (PosInf, PosInf, - 1)"

text \<open>Line 98: both PET values reach the threshold.\<close>

definition constraint_met :: "trial \<Rightarrow> bool" where
  "constraint_met r =
     (case r of (pet1, pet2, traversal_time) \<Rightarrow>
        Fin PET_CONSTRAINT_THRESHOLD \<le> pet1 \<and> Fin PET_CONSTRAINT_THRESHOLD \<le> pet2)"

text \<open>
  The inner loop over the runs of one candidate speed, with its accumulators
  \<open>run_traversal_times\<close> and \<open>successful_pet_constraint_runs\<close> (the lists \<open>run_pet1s\<close> and
  \<open>run_pet2s\<close> are appended to and never read).
\<close>

fun run_loop :: "trial list \<Rightarrow> real list \<times> nat \<Rightarrow> real list \<times> nat" where
  "run_loop [] acc = acc"
| "run_loop (r # rest) (run_traversal_times, successful_pet_constraint_runs) =
     run_loop rest
       (case r of (pet1, pet2, traversal_time) \<Rightarrow>
          (if traversal_time \<ge> 0 then run_traversal_times @ [traversal_time]
           else run_traversal_times,
           if constraint_met r then successful_pet_constraint_runs + 1
           else successful_pet_constraint_runs))"

text \<open>
  Lines 63-108 for one candidate: the row \<open>(av_speed, prob_constraint_satisfied,
  avg_traversal_time)\<close> appended to \<open>optimization_summary\<close>. \<open>np.mean\<close> is the sum over the
  length.
\<close>

type_synonym summary_row = "real \<times> real \<times> real"

definition candidate_row :: "(real \<Rightarrow> nat \<Rightarrow> trial) \<Rightarrow> real \<Rightarrow> summary_row" where
  "candidate_row execute av_speed =
     (case run_loop (map (execute av_speed) [0 ..< N_SIM_RUNS_PER_AV_SPEED]) ([], 0) of
        (run_traversal_times, successful_pet_constraint_runs) \<Rightarrow>
          (av_speed,
           real successful_pet_constraint_runs / real N_SIM_RUNS_PER_AV_SPEED,
           if run_traversal_times \<noteq> []
           then sum_list run_traversal_times / real (length run_traversal_times)
           else - 1))"

text \<open>\<open>np.linspace(start, stop, num)\<close>: \<open>num\<close> evenly spaced values, both ends included.\<close>

definition linspace :: "real \<Rightarrow> real \<Rightarrow> nat \<Rightarrow> real list" where
  "linspace start stop num =
     map (\<lambda>i. start + real i * ((stop - start) / real (num - 1))) [0 ..< num]"

definition optimization_summary :: "(real \<Rightarrow> nat \<Rightarrow> trial) \<Rightarrow> summary_row list" where
  "optimization_summary execute =
     map (candidate_row execute) (linspace AV_MIN_SPEED_MPS AV_MAX_SPEED_MPS NUM_AV_SPEED_STEPS)"

text \<open>
  Line 131: the sort key of an eligible entry \<open>(av_s, avg_tt, prob_cs)\<close>. Python compares
  the key tuples lexicographically, and \<open>list.sort\<close> is stable, which determines its
  result: it is the stable insertion sort \<open>sort_key\<close>.
\<close>

definition eligible_key :: "real \<times> real \<times> real \<Rightarrow> pyfloat \<times> real" where
  "eligible_key x =
     (case x of (av_s, avg_tt, prob_cs) \<Rightarrow> (if avg_tt \<noteq> - 1 then Fin avg_tt else PosInf, - av_s))"

text \<open>
  Line 150: the key of the best compromise, on a row \<open>(av_s, prob_cs, avg_tt)\<close>. The
  conditional expression binds weaker than the unary minus and is the second component
  of the tuple.
\<close>

definition compromise_key :: "summary_row \<Rightarrow> real \<times> pyfloat" where
  "compromise_key x =
     (case x of (av_s, prob_cs, avg_tt) \<Rightarrow> (prob_cs, if avg_tt \<noteq> - 1 then Fin (- avg_tt) else PosInf))"

text \<open>\<open>max(iterable, key=...)\<close> on a non-empty list: the first element with the largest key.\<close>

fun py_max :: "('a \<Rightarrow> 'k::linorder) \<Rightarrow> 'a \<Rightarrow> 'a list \<Rightarrow> 'a" where
  "py_max key best [] = best"
| "py_max key best (x # rest) = py_max key (if key best < key x then x else best) rest"

text \<open>
  What \<open>run_optimizer\<close> reports: either the optimal speed with its traversal time and its
  probability, or that no speed met the constraint, with the best compromise row when
  the summary is not empty.
\<close>

datatype report =
    Optimal_Found real pyfloat real
  | No_Speed_Found "summary_row option"

text \<open>Lines 117-153: the selection on the finished summary.\<close>

definition select_speed :: "summary_row list \<Rightarrow> report" where
  "select_speed summary =
     (let eligible_speeds =
            map (\<lambda>(av_s, prob_cs, avg_tt). (av_s, avg_tt, prob_cs))
              (filter (\<lambda>(av_s, prob_cs, avg_tt). prob_cs \<ge> PROB_CONSTRAINT_SATISFIED_THRESHOLD)
                 summary);
          (best_av_speed, best_traversal_time, best_prob_satisfaction) =
            (if eligible_speeds \<noteq> []
             then (case hd (sort_key eligible_key eligible_speeds) of
                     (av_s, avg_tt, prob_cs) \<Rightarrow> (av_s, Fin avg_tt, prob_cs))
             else (- 1, PosInf, - 1))
      in if best_av_speed \<noteq> - 1
         then Optimal_Found best_av_speed best_traversal_time best_prob_satisfaction
         else No_Speed_Found
                (case summary of
                   [] \<Rightarrow> None
                 | x # rest \<Rightarrow> Some (py_max compromise_key x rest)))"

definition run_optimizer :: "(real \<Rightarrow> nat \<Rightarrow> trial) \<Rightarrow> report" where
  "run_optimizer execute = select_speed (optimization_summary execute)"

section \<open>Notions used in the statements\<close>

text \<open>What the normalisation loop of \<open>calculate_pet\<close> leaves of one element it has passed.\<close>

fun normalized :: "traj_elem \<Rightarrow> traj_elem" where
  "normalized NotDict = NotDict"
| "normalized (Dict d) = Dict (setdefaults d)"

text \<open>An interval whose two bounds, when both are present, are in order.\<close>

definition ok_interval :: "interval \<Rightarrow> bool" where
  "ok_interval r = (case r of (Some a, Some b) \<Rightarrow> a \<le> b | _ \<Rightarrow> True)"

definition early :: "'a flow \<Rightarrow> bool" where
  "early m = (case m of Return r \<Rightarrow> ok_interval r | _ \<Rightarrow> True)"

text \<open>
  A malformed sample is one \<open>get_coords_time\<close> rejects: not a dict, or a dict without
  \<open>'x'\<close>, \<open>'y'\<close> or \<open>'time'\<close>.
\<close>

definition malformed :: "traj_elem \<Rightarrow> bool" where
  "malformed e = (case get_coords_time e of Inl err \<Rightarrow> True | Inr v \<Rightarrow> False)"

definition sample_inside :: "shapely \<Rightarrow> polygon \<Rightarrow> traj_elem \<Rightarrow> bool" where
  "sample_inside sh area_polygon e =
     (case get_coords_time e of
        Inl err \<Rightarrow> False
      | Inr (p, t) \<Rightarrow> is_inside_polygon sh p area_polygon = Inr True)"

text \<open>A sequence of membership flags with a true-to-false step between two neighbours.\<close>

fun leaves :: "bool list \<Rightarrow> bool" where
  "leaves (a # b # rest) = ((a \<and> \<not> b) \<or> leaves (b # rest))"
| "leaves flags = False"

text \<open>The magnitude of a PET value.\<close>

fun magnitude :: "pyfloat \<Rightarrow> pyfloat" where
  "magnitude (Fin r) = Fin \<bar>r\<bar>"
| "magnitude PosInf = PosInf"

text \<open>
  The rank of a performance metric in the selection: a defined metric by its value, the
  sentinel \<open>-1.0\<close> after every defined one.
\<close>

definition metric_rank :: "real \<Rightarrow> pyfloat" where
  "metric_rank avg_tt = (if avg_tt \<noteq> - 1 then Fin avg_tt else PosInf)"

subsection \<open>The scenario of the module's self test\<close>

definition sample :: "real \<Rightarrow> real \<Rightarrow> real \<Rightarrow> traj_elem" where
  "sample t a b = Dict \<lparr>p_time = Some t, p_x = Some a, p_y = Some b, p_speed = None, p_id = None\<rparr>"

definition encroachment_area :: polygon where
  "encroachment_area = [(0, 0), (10, 0), (10, 10), (0, 10)]"

definition vehicle_traj1 :: trajectory where
  "vehicle_traj1 = [sample 0 (- 5) 5, sample 1 5 5, sample 2 15 5]"

definition pedestrian_traj1 :: trajectory where
  "pedestrian_traj1 = [sample 3 5 (- 5), sample 4 5 5, sample 5 5 15]"

text \<open>Test case 3 (overlap) and the vehicle of test case 4, which never enters.\<close>

definition vehicle_traj3 :: trajectory where
  "vehicle_traj3 = [sample 0 (- 5) 5, sample 1 5 5, sample 2 15 5]"

definition pedestrian_traj3 :: trajectory where
  "pedestrian_traj3 = [sample (1/2) 5 (- 5), sample (3/2) 5 5, sample (5/2) 5 15]"

definition vehicle_traj4 :: trajectory where
  "vehicle_traj4 = [sample 0 (- 5) 20, sample 1 5 20, sample 2 15 20]"

text \<open>
  A vehicle with a single sample, inside the area at time 1, and a pedestrian that is
  inside from time 0 and leaves between times 1 and 3: the occupancy intervals are
  \<open>(1, 1)\<close> and \<open>(0, 2)\<close>.
\<close>

definition standing_vehicle :: trajectory where
  "standing_vehicle = [sample 1 5 5]"

definition crossing_pedestrian :: trajectory where
  "crossing_pedestrian = [sample 0 5 5, sample 1 5 5, sample 3 5 15]"

text \<open>A sample that carries a speed and no id.\<close>

definition with_speed :: "real \<Rightarrow> real \<Rightarrow> real \<Rightarrow> real \<Rightarrow> traj_elem" where
  "with_speed t a b s = Dict \<lparr>p_time = Some t, p_x = Some a, p_y = Some b, p_speed = Some s, p_id = None\<rparr>"

text \<open>A dict with coordinates and no \<open>'time'\<close> key.\<close>

definition no_time :: "real \<Rightarrow> real \<Rightarrow> traj_elem" where
  "no_time a b = Dict \<lparr>p_time = None, p_x = Some a, p_y = Some b, p_speed = None, p_id = None\<rparr>"

text \<open>
  A geometry library that answers as exact geometry does on the square of the self test:
  the points strictly inside it.
\<close>

definition open_square :: "polygon \<Rightarrow> point \<Rightarrow> bool" where
  "open_square vs p = (case p of (x, y) \<Rightarrow> 0 < x \<and> x < 10 \<and> 0 < y \<and> y < 10)"

subsection \<open>Trial outcomes for the optimizer\<close>

text \<open>
  Every trial meets the PET constraint; at speed 5 the J2 traversal time is never measured,
  at the other speeds it is 2 seconds.
\<close>

definition good_execute :: "real \<Rightarrow> nat \<Rightarrow> trial" where
  "good_execute v i = (if v = 5 then (PosInf, PosInf, - 1) else (Fin 3, Fin 4, 2))"

subsection \<open>Trajectories with a sample that lacks its time\<close>

text \<open>
  The first one starts inside the area and has left it before the sample without a time;
  the second one enters the area and meets the sample without a time while inside.
\<close>

definition exits_then_malformed :: trajectory where
  "exits_then_malformed = [sample 0 5 5, sample 1 15 5, no_time 15 5]"

definition enters_then_malformed :: trajectory where
  "enters_then_malformed = [sample 0 (- 5) 5, sample 1 5 5, no_time 15 5, sample 3 15 5]"

text \<open>
  No speed reaches the target probability: at speeds 5 and 10 three trials of five meet
  the PET constraint, at speed 15 none. The J2 traversal takes 3 seconds at speed 5, is
  never measured at speed 10, and takes 2 seconds at speed 15.
\<close>

definition bad_execute :: "real \<Rightarrow> nat \<Rightarrow> trial" where
  "bad_execute v i =
     (if v = 5 then (if i < 3 then (PosInf, PosInf, 3) else (Fin 1, PosInf, 3))
      else if v = 10 then (if i < 3 then (PosInf, PosInf, - 1) else (Fin 1, PosInf, - 1))
      else (Fin 0, Fin 0, 2))"

section \<open>Properties of the PET computation\<close>

lemma ray_step_total: "\<exists>st'. ray_step pt st p2 = Inr st'"
proof -
  obtain x y where pt: "pt = (x, y)" by (cases pt)
  obtain inside p1x p1y xi where st: "st = (inside, (p1x, p1y), xi)" by (cases st) auto
  obtain p2x p2y where p2: "p2 = (p2x, p2y)" by (cases p2)
  show ?thesis
  proof (cases "p1y = p2y")
    case True
    then show ?thesis unfolding pt st p2 by simp
  next
    case False
    then show ?thesis unfolding pt st p2 by (simp add: Let_def)
  qed
qed

lemma ray_loop_total: "\<exists>b. ray_loop pt ps st = Inr b"
proof (induction ps arbitrary: st)
  case Nil
  then show ?case by (cases st) auto
next
  case (Cons p2 ps)
  obtain st' where "ray_step pt st p2 = Inr st'" using ray_step_total by blast
  then show ?case using Cons.IH [of st'] by simp
qed

lemma is_inside_polygon_total: "\<exists>b. is_inside_polygon sh pt vs = Inr b"
  unfolding is_inside_polygon_def using ray_loop_total
  by (auto split: option.splits)

lemma is_inside_polygon_degenerate: "length vs < 3 \<Longrightarrow> is_inside_polygon sh pt vs = Inr False"
  unfolding is_inside_polygon_def by (auto split: option.splits)

lemma get_coords_time_normalized: "get_coords_time (normalized e) = get_coords_time e"
  by (cases e) (simp_all add: setdefaults_def)

lemma scan_normalized:
  "scan sh poly (normalized p) (map normalized t) st = scan sh poly p t st"
proof (induction t arbitrary: p st)
  case Nil
  then show ?case by simp
next
  case (Cons c t)
  obtain en ex ci where st: "st = (en, ex, ci)" by (cases st) auto
  show ?case unfolding st
    by (simp add: get_coords_time_normalized Cons.IH split: sum.splits prod.splits)
qed

lemma first_sample_normalized:
  "t \<noteq> [] \<Longrightarrow> first_sample sh (map normalized t) poly = first_sample sh t poly"
  by (simp add: first_sample_def hd_map get_coords_time_normalized)

lemma exit_at_end_normalized:
  "t \<noteq> [] \<Longrightarrow> exit_at_end (map normalized t) st = exit_at_end t st"
  by (cases st) (auto simp add: exit_at_end_def last_map get_coords_time_normalized)

lemma single_sample_normalized: "single_sample (map normalized t) st = single_sample t st"
  by (simp add: single_sample_def)

lemma implied_entry_normalized:
  "t \<noteq> [] \<Longrightarrow> implied_entry sh (map normalized t) poly st = implied_entry sh t poly st"
  by (cases st) (simp add: implied_entry_def hd_map get_coords_time_normalized)

lemma get_entry_exit_times_normalized:
  "get_entry_exit_times sh (map normalized t) poly = get_entry_exit_times sh t poly"
proof (cases "t = []")
  case True
  then show ?thesis by (simp add: get_entry_exit_times_def)
next
  case False
  have s: "scan sh poly (hd (map normalized t)) (tl (map normalized t)) st
      = scan sh poly (hd t) (tl t) st" for st
    using False scan_normalized [of sh poly "hd t" "tl t" st] by (simp add: hd_map map_tl)
  show ?thesis
    unfolding get_entry_exit_times_def
    by (simp only: s first_sample_normalized [OF False] exit_at_end_normalized [OF False]
        single_sample_normalized implied_entry_normalized [OF False] map_is_Nil_conv)
qed

lemma normalize_records:
  "\<forall>e\<in>set t. e \<noteq> NotDict \<Longrightarrow> normalize t = (map normalized t, None)"
proof (induction t)
  case Nil
  then show ?case by simp
next
  case (Cons a t)
  then show ?case by (cases a) simp_all
qed

lemma normalize_non_record:
  "NotDict \<in> set t \<Longrightarrow> snd (normalize t) = Some AttributeError"
proof (induction t)
  case Nil
  then show ?case by simp
next
  case (Cons a t)
  then show ?case by (cases a) (auto split: prod.splits)
qed

lemma normalize_error: "snd (normalize t) = Some e \<Longrightarrow> e = AttributeError \<and> NotDict \<in> set t"
proof (induction t)
  case Nil
  then show ?case by simp
next
  case (Cons a t)
  then show ?case by (cases a) (auto split: prod.splits)
qed

lemma scan_no_raise: "scan sh poly p t st \<noteq> Raise e"
proof (induction t arbitrary: p st)
  case Nil
  then show ?case by simp
next
  case (Cons c t)
  obtain en ex ci where st: "st = (en, ex, ci)" by (cases st) auto
  show ?case
  proof (cases "get_coords_time p")
    case (Inl a)
    then show ?thesis unfolding st by simp
  next
    case p: (Inr pp)
    show ?thesis
    proof (cases "get_coords_time c")
      case (Inl a)
      then show ?thesis unfolding st using p by (simp split: prod.splits)
    next
      case c: (Inr cc)
      obtain b where "is_inside_polygon sh (fst cc) poly = Inr b"
        using is_inside_polygon_total by blast
      then show ?thesis unfolding st using p c Cons.IH
        by (cases pp; cases cc) simp
    qed
  qed
qed

lemma first_sample_no_raise: "first_sample sh t poly \<noteq> Raise e"
proof (cases "get_coords_time (hd t)")
  case (Inl a)
  then show ?thesis by (simp add: first_sample_def)
next
  case (Inr pp)
  obtain b where "is_inside_polygon sh (fst pp) poly = Inr b"
    using is_inside_polygon_total by blast
  then show ?thesis using Inr by (cases pp) (simp add: first_sample_def)
qed

lemma implied_entry_no_raise: "implied_entry sh t poly st \<noteq> Raise e"
proof (cases "get_coords_time (hd t)")
  case (Inl a)
  then show ?thesis by (cases st) (simp add: implied_entry_def)
next
  case (Inr pp)
  obtain b where "is_inside_polygon sh (fst pp) poly = Inr b"
    using is_inside_polygon_total by blast
  then show ?thesis using Inr by (cases pp; cases st) (simp add: implied_entry_def)
qed

lemma exit_at_end_no_raise: "exit_at_end t st \<noteq> Raise e"
  by (cases st) (auto simp add: exit_at_end_def split: sum.splits)

lemma single_sample_no_raise: "single_sample t st \<noteq> Raise e"
  by (cases st) (simp add: single_sample_def)

lemma check_order_no_raise: "check_order st \<noteq> Raise e"
  by (cases st) (simp add: check_order_def split: option.splits)

lemma and_then_no_raise:
  "(\<And>e. m \<noteq> Raise e) \<Longrightarrow> (\<And>a e. f a \<noteq> Raise e) \<Longrightarrow> and_then m f \<noteq> Raise e"
  by (cases m) simp_all

lemma get_entry_exit_times_total: "\<exists>r. get_entry_exit_times sh t poly = Inr r"
proof -
  let ?m = "and_then (first_sample sh t poly) (\<lambda>st.
         and_then (scan sh poly (hd t) (tl t) st) (\<lambda>st.
         and_then (exit_at_end t st) (\<lambda>st.
         and_then (single_sample t st) (\<lambda>st.
         and_then (implied_entry sh t poly st) check_order))))"
  have nr: "?m \<noteq> Raise e" for e
    by (intro and_then_no_raise first_sample_no_raise scan_no_raise exit_at_end_no_raise
        single_sample_no_raise implied_entry_no_raise check_order_no_raise)
  have "\<exists>r. result_of ?m = Inr r"
  proof (cases ?m)
    case (Raise e)
    then show ?thesis using nr by simp
  qed simp_all
  then show ?thesis by (simp add: get_entry_exit_times_def)
qed

lemma and_then_early:
  "early m \<Longrightarrow> (\<And>a. early (f a)) \<Longrightarrow> early (and_then m f)"
  by (cases m) (simp_all add: early_def)

lemma first_sample_early: "early (first_sample sh t poly)"
  by (simp add: first_sample_def early_def ok_interval_def split: sum.splits prod.splits)

lemma scan_early: "early (scan sh poly p t st)"
proof (induction t arbitrary: p st)
  case Nil
  then show ?case by (simp add: early_def)
next
  case (Cons c t)
  obtain en ex ci where st: "st = (en, ex, ci)" by (cases st) auto
  have r: "early (Return (None, None) :: (real option \<times> real option \<times> bool) flow)"
    by (simp add: early_def ok_interval_def)
  have n: "early (Next s :: (real option \<times> real option \<times> bool) flow)" for s
    by (simp add: early_def)
  have ra: "early (Raise s :: (real option \<times> real option \<times> bool) flow)" for s
    by (simp add: early_def)
  show ?case unfolding st
    by (simp add: r n ra Cons.IH split: sum.splits prod.splits)
qed

lemma exit_at_end_early: "early (exit_at_end t st)"
  by (cases st) (auto simp add: exit_at_end_def early_def ok_interval_def split: sum.splits)

lemma single_sample_early: "early (single_sample t st)"
  by (cases st) (simp add: single_sample_def early_def)

lemma implied_entry_early: "early (implied_entry sh t poly st)"
  by (cases st) (simp add: implied_entry_def early_def ok_interval_def split: sum.splits prod.splits)

lemma check_order_early: "early (check_order st)"
  by (cases st) (simp add: check_order_def early_def ok_interval_def split: option.splits)

lemma get_entry_exit_times_ordered:
  assumes "get_entry_exit_times sh t poly = Inr (Some a, Some b)"
  shows "a \<le> b"
proof -
  let ?m = "and_then (first_sample sh t poly) (\<lambda>st.
         and_then (scan sh poly (hd t) (tl t) st) (\<lambda>st.
         and_then (exit_at_end t st) (\<lambda>st.
         and_then (single_sample t st) (\<lambda>st.
         and_then (implied_entry sh t poly st) check_order))))"
  have e: "early ?m"
    by (intro and_then_early first_sample_early scan_early exit_at_end_early
        single_sample_early implied_entry_early check_order_early)
  have nn: "?m \<noteq> Next r" for r
  proof -
    have c: "check_order s \<noteq> Next r" for s
      by (cases s) (simp add: check_order_def split: option.splits)
    have k: "(\<And>a. f a \<noteq> Next r) \<Longrightarrow> and_then m f \<noteq> Next r" for m :: "'c flow" and f
      by (cases m) simp_all
    show ?thesis by (intro k c)
  qed
  show ?thesis
  proof (cases "t = [] \<or> poly = [] \<or> length poly < 3")
    case True
    then show ?thesis using assms by (simp add: get_entry_exit_times_def)
  next
    case False
    then have r: "result_of ?m = Inr (Some a, Some b)"
      using assms by (simp add: get_entry_exit_times_def)
    have "?m = Return (Some a, Some b)"
    proof (cases ?m)
      case (Next x)
      then show ?thesis using nn by simp
    next
      case (Return x)
      then show ?thesis using r by simp
    next
      case (Raise x)
      then show ?thesis using r by simp
    qed
    then show ?thesis using e by (simp add: early_def ok_interval_def)
  qed
qed

lemma calculate_pet_records:
  assumes "\<forall>e\<in>set veh \<union> set ped. e \<noteq> NotDict"
  shows "\<exists>rv rp. get_entry_exit_times sh veh poly = Inr rv
           \<and> get_entry_exit_times sh ped poly = Inr rp
           \<and> calculate_pet sh veh ped poly
               = (Inr (pet_of_intervals rv rp), map normalized veh, map normalized ped)"
proof -
  obtain rv where rv: "get_entry_exit_times sh veh poly = Inr rv"
    using get_entry_exit_times_total by blast
  obtain rp where rp: "get_entry_exit_times sh ped poly = Inr rp"
    using get_entry_exit_times_total by blast
  have nv: "normalize veh = (map normalized veh, None)"
    using assms by (intro normalize_records) simp
  have np: "normalize ped = (map normalized ped, None)"
    using assms by (intro normalize_records) simp
  have "calculate_pet sh veh ped poly
      = (Inr (pet_of_intervals rv rp), map normalized veh, map normalized ped)"
    by (simp add: calculate_pet_def nv np get_entry_exit_times_normalized rv rp)
  then show ?thesis using rv rp by blast
qed

lemma calculate_pet_non_record:
  assumes "NotDict \<in> set veh \<union> set ped"
  shows "fst (calculate_pet sh veh ped poly) = Inl AttributeError"
proof (cases "NotDict \<in> set veh")
  case True
  then have "snd (normalize veh) = Some AttributeError" by (rule normalize_non_record)
  then show ?thesis by (cases "normalize veh") (simp add: calculate_pet_def)
next
  case False
  then have "\<forall>e\<in>set veh. e \<noteq> NotDict" by auto
  then have nv: "normalize veh = (map normalized veh, None)" by (rule normalize_records)
  from False assms have "NotDict \<in> set ped" by simp
  then have "snd (normalize ped) = Some AttributeError" by (rule normalize_non_record)
  then show ?thesis by (cases "normalize ped") (simp add: calculate_pet_def nv)
qed

lemma pet_of_intervals_sym:
  assumes "ok_interval a" "ok_interval b"
  shows "pet_of_intervals a b = pet_of_intervals b a"
proof -
  obtain a1 a2 b1 b2 where ab: "a = (a1, a2)" "b = (b1, b2)" by (cases a; cases b) auto
  show ?thesis
    using assms unfolding ab pet_of_intervals_def pet_of_times_def ok_interval_def
    by (cases a1; cases a2; cases b1; cases b2) (auto simp add: Let_def max_def min_def)
qed

lemma get_entry_exit_times_ok:
  "get_entry_exit_times sh t poly = Inr r \<Longrightarrow> ok_interval r"
  using get_entry_exit_times_ordered [of sh t poly]
  by (cases r) (auto simp add: ok_interval_def split: option.splits)

lemma scan_reaches_malformed:
  assumes "\<forall>e\<in>set (p # pre). \<not> malformed e" "malformed bad"
    and "\<not> leaves (map (sample_inside sh poly) (p # pre))"
    and "ci = sample_inside sh poly p"
  shows "scan sh poly p (pre @ bad # post) (en, ex, ci) = Return (None, None)"
  using assms
proof (induction pre arbitrary: p en ex ci)
  case Nil
  then show ?case by (auto simp add: malformed_def split: sum.splits)
next
  case (Cons c pre)
  obtain pp tp where p: "get_coords_time p = Inr (pp, tp)"
    using Cons.prems(1) by (cases "get_coords_time p") (auto simp add: malformed_def)
  obtain pc tc where c: "get_coords_time c = Inr (pc, tc)"
    using Cons.prems(1) by (cases "get_coords_time c") (auto simp add: malformed_def)
  obtain b where b: "is_inside_polygon sh pc poly = Inr b"
    using is_inside_polygon_total by blast
  have sc: "sample_inside sh poly c = b" by (simp add: sample_inside_def c b)
  have nl: "\<not> (ci \<and> \<not> b)" "\<not> leaves (map (sample_inside sh poly) (c # pre))"
    using Cons.prems(3,4) sc by auto
  have ih: "scan sh poly c (pre @ bad # post) (en', ex', b) = Return (None, None)" for en' ex'
  proof (rule Cons.IH)
    show "\<forall>e\<in>set (c # pre). \<not> malformed e" using Cons.prems(1) by simp
    show "malformed bad" by (rule Cons.prems(2))
    show "\<not> leaves (map (sample_inside sh poly) (c # pre))" by (rule nl(2))
    show "b = sample_inside sh poly c" using sc by simp
  qed
  show ?case
  proof (cases "\<not> ci \<and> b")
    case True
    then show ?thesis using p c b ih by simp
  next
    case False
    then have "ci = b" using nl(1) by auto
    then show ?thesis using p c b ih nl(1) by simp
  qed
qed

lemma extraction_reaches_malformed:
  assumes "\<forall>e\<in>set pre. \<not> malformed e" "malformed bad"
    and "\<not> leaves (map (sample_inside sh poly) pre)"
  shows "get_entry_exit_times sh (pre @ bad # post) poly = Inr (None, None)"
proof (cases "poly = [] \<or> length poly < 3")
  case True
  then show ?thesis by (auto simp add: get_entry_exit_times_def)
next
  case np: False
  show ?thesis
  proof (cases pre)
    case Nil
    then show ?thesis using assms(2)
      by (auto simp add: get_entry_exit_times_def first_sample_def malformed_def split: sum.splits)
  next
    case (Cons p pre')
    obtain pp tp where p: "get_coords_time p = Inr (pp, tp)"
      using assms(1) Cons by (cases "get_coords_time p") (auto simp add: malformed_def)
    obtain b where b: "is_inside_polygon sh pp poly = Inr b"
      using is_inside_polygon_total by blast
    have sp: "sample_inside sh poly p = b" by (simp add: sample_inside_def p b)
    have sc: "scan sh poly p (pre' @ bad # post) (en, ex, b) = Return (None, None)" for en ex
      using assms Cons sp by (intro scan_reaches_malformed) simp_all
    have fs: "first_sample sh (p # pre' @ bad # post) poly
        = Next (if b then (Some tp, None, True) else (None, None, False))"
      using p b by (simp add: first_sample_def)
    have "scan sh poly p (pre' @ bad # post)
        (if b then (Some tp, None, True) else (None, None, False)) = Return (None, None)"
      using sc [of "Some tp" None] sc [of None None] by (cases b) simp_all
    then show ?thesis using np Cons
      by (simp add: get_entry_exit_times_def fs)
  qed
qed

lemma pet_overlap:
  "max ve pe < min vx px \<Longrightarrow>
     pet_of_intervals (Some ve, Some vx) (Some pe, Some px) = Fin (max ve pe - min vx px)"
  by (simp add: pet_of_intervals_def pet_of_times_def Let_def)

lemma pet_veh_first:
  "\<not> max ve pe < min vx px \<Longrightarrow> vx \<le> pe \<Longrightarrow>
     pet_of_intervals (Some ve, Some vx) (Some pe, Some px) = Fin (pe - vx)"
  by (simp add: pet_of_intervals_def pet_of_times_def Let_def)

lemma pet_ped_first:
  assumes "ve \<le> vx" "pe \<le> px" "\<not> max ve pe < min vx px" "px \<le> ve"
  shows "pet_of_intervals (Some ve, Some vx) (Some pe, Some px) = Fin (ve - px)"
proof (cases "vx \<le> pe")
  case True
  then have "pe - vx = ve - px" using assms by linarith
  then show ?thesis using True assms(3) by (simp add: pet_veh_first)
next
  case False
  then show ?thesis using assms(3,4)
    by (simp add: pet_of_intervals_def pet_of_times_def Let_def)
qed

lemma pet_absent:
  "a = None \<or> b = None \<or> c = None \<or> d = None \<Longrightarrow> pet_of_intervals (a, b) (c, d) = PosInf"
  by (cases a; cases b; cases c; cases d) (simp_all add: pet_of_intervals_def)

subsection \<open>The scenarios, evaluated\<close>

lemmas extraction_defs =
  get_entry_exit_times_def first_sample_def exit_at_end_def single_sample_def
  implied_entry_def check_order_def is_inside_polygon_def upt_rec

lemma records_sample: "sample t a b \<noteq> NotDict"
  by (simp add: sample_def)

lemma times_vehicle_traj1:
  "get_entry_exit_times None vehicle_traj1 encroachment_area = Inr (Some (1/2), Some (3/2))"
  by (simp add: extraction_defs vehicle_traj1_def sample_def encroachment_area_def)

lemma times_pedestrian_traj1:
  "get_entry_exit_times None pedestrian_traj1 encroachment_area = Inr (Some (7/2), Some (9/2))"
  by (simp add: extraction_defs pedestrian_traj1_def sample_def encroachment_area_def)

lemma times_vehicle_traj3:
  "get_entry_exit_times None vehicle_traj3 encroachment_area = Inr (Some (1/2), Some (3/2))"
  by (simp add: extraction_defs vehicle_traj3_def sample_def encroachment_area_def)

lemma times_pedestrian_traj3:
  "get_entry_exit_times None pedestrian_traj3 encroachment_area = Inr (Some 1, Some 2)"
  by (simp add: extraction_defs pedestrian_traj3_def sample_def encroachment_area_def)

lemma times_vehicle_traj4:
  "get_entry_exit_times None vehicle_traj4 encroachment_area = Inr (None, None)"
  by (simp add: extraction_defs vehicle_traj4_def sample_def encroachment_area_def)

lemma times_standing_vehicle:
  "get_entry_exit_times None standing_vehicle encroachment_area = Inr (Some 1, Some 1)"
  by (simp add: extraction_defs standing_vehicle_def sample_def encroachment_area_def)

lemma times_crossing_pedestrian:
  "get_entry_exit_times None crossing_pedestrian encroachment_area = Inr (Some 0, Some 2)"
  by (simp add: extraction_defs crossing_pedestrian_def sample_def encroachment_area_def)

lemma pet_else:
  "\<not> max ve pe < min vx px \<Longrightarrow> \<not> vx \<le> pe \<Longrightarrow> \<not> px \<le> ve \<Longrightarrow>
     pet_of_intervals (Some ve, Some vx) (Some pe, Some px) = Fin 0"
  by (simp only: pet_of_intervals_def pet_of_times_def Let_def prod.case option.case if_False)

lemma calculate_pet_value:
  assumes "\<forall>e\<in>set veh \<union> set ped. e \<noteq> NotDict"
    and "get_entry_exit_times sh veh poly = Inr rv"
    and "get_entry_exit_times sh ped poly = Inr rp"
  shows "fst (calculate_pet sh veh ped poly) = Inr (pet_of_intervals rv rp)"
  using calculate_pet_records [OF assms(1), of sh poly] assms(2,3) by auto

subsection \<open>The normalisation loop\<close>

lemma setdefaults_fields:
  "setdefaults d = d\<lparr>p_speed := (if p_speed d = None then Some 0 else p_speed d),
                     p_id := (if p_id d = None then Some ''dummy'' else p_id d)\<rparr>"
  by (cases "p_speed d"; cases "p_id d") (simp_all add: setdefaults_def)

lemma setdefaults_changes:
  "p_speed d = None \<or> p_id d = None \<Longrightarrow> setdefaults d \<noteq> d"
proof
  assume h: "p_speed d = None \<or> p_id d = None" and e: "setdefaults d = d"
  have "p_speed (setdefaults d) \<noteq> None" "p_id (setdefaults d) \<noteq> None"
    by (simp_all add: setdefaults_def split: option.splits)
  then show False using h e by auto
qed

lemma map_normalized_changes:
  assumes "Dict d \<in> set t" "p_speed d = None \<or> p_id d = None"
  shows "map normalized t \<noteq> t"
proof
  assume "map normalized t = t"
  then have "map normalized t = map id t" by simp
  then have "normalized (Dict d) = id (Dict d)" using assms(1) by (simp only: map_eq_conv)
  then show False using setdefaults_changes [OF assms(2)] by simp
qed

subsection \<open>Elements that are not dicts, and dicts with missing keys\<close>

lemma calculate_pet_raise_state:
  assumes "NotDict \<in> set veh \<union> set ped"
  shows "calculate_pet sh veh ped poly
     = (Inl AttributeError, fst (normalize veh),
        if NotDict \<in> set veh then ped else fst (normalize ped))"
proof (cases "NotDict \<in> set veh")
  case True
  then have "snd (normalize veh) = Some AttributeError" by (rule normalize_non_record)
  then show ?thesis using True by (cases "normalize veh") (simp add: calculate_pet_def)
next
  case False
  then have "\<forall>e\<in>set veh. e \<noteq> NotDict" by auto
  then have nv: "normalize veh = (map normalized veh, None)" by (rule normalize_records)
  from False assms have "NotDict \<in> set ped" by simp
  then have "snd (normalize ped) = Some AttributeError" by (rule normalize_non_record)
  then show ?thesis using False by (cases "normalize ped") (simp add: calculate_pet_def nv)
qed

lemma non_record_first: "get_entry_exit_times sh (NotDict # t) poly = Inr (None, None)"
  by (simp add: get_entry_exit_times_def first_sample_def)

lemma malformed_record_absorbed:
  assumes "\<forall>e\<in>set (pre @ bad # post) \<union> set other. e \<noteq> NotDict"
    and "\<forall>e\<in>set pre. \<not> malformed e" "malformed bad"
    and "\<not> leaves (map (sample_inside sh poly) pre)"
  shows "fst (calculate_pet sh (pre @ bad # post) other poly) = Inr PosInf"
    and "fst (calculate_pet sh other (pre @ bad # post) poly) = Inr PosInf"
proof -
  have g: "get_entry_exit_times sh (pre @ bad # post) poly = Inr (None, None)"
    using assms(2,3,4) by (rule extraction_reaches_malformed)
  obtain ro where o: "get_entry_exit_times sh other poly = Inr ro"
    using get_entry_exit_times_total by blast
  have r2: "\<forall>e\<in>set other \<union> set (pre @ bad # post). e \<noteq> NotDict" using assms(1) by auto
  have "pet_of_intervals (None, None) ro = PosInf" by (cases ro) (simp add: pet_absent)
  then show "fst (calculate_pet sh (pre @ bad # post) other poly) = Inr PosInf"
    using calculate_pet_value [OF assms(1) g o] by simp
  have "pet_of_intervals ro (None, None) = PosInf" by (cases ro) (simp add: pet_absent)
  then show "fst (calculate_pet sh other (pre @ bad # post) poly) = Inr PosInf"
    using calculate_pet_value [OF r2 o g] by simp
qed

subsection \<open>The first test case with a geometry library\<close>

lemma times_vehicle_traj1_library:
  assumes "contains encroachment_area (5, 5)" "\<not> contains encroachment_area (- 5, 5)"
    "\<not> contains encroachment_area (15, 5)"
  shows "get_entry_exit_times (Some contains) vehicle_traj1 encroachment_area
     = Inr (Some (1/2), Some (3/2))"
proof -
  have l: "\<not> length encroachment_area < 3" "encroachment_area \<noteq> []"
    by (simp_all add: encroachment_area_def)
  show ?thesis
    using assms l
    by (simp add: get_entry_exit_times_def first_sample_def exit_at_end_def single_sample_def
        implied_entry_def check_order_def is_inside_polygon_def vehicle_traj1_def sample_def)
qed

lemma times_pedestrian_traj1_library:
  assumes "contains encroachment_area (5, 5)" "\<not> contains encroachment_area (5, - 5)"
    "\<not> contains encroachment_area (5, 15)"
  shows "get_entry_exit_times (Some contains) pedestrian_traj1 encroachment_area
     = Inr (Some (7/2), Some (9/2))"
proof -
  have l: "\<not> length encroachment_area < 3" "encroachment_area \<noteq> []"
    by (simp_all add: encroachment_area_def)
  show ?thesis
    using assms l
    by (simp add: get_entry_exit_times_def first_sample_def exit_at_end_def single_sample_def
        implied_entry_def check_order_def is_inside_polygon_def pedestrian_traj1_def sample_def)
qed

lemma records_traj1: "\<forall>e\<in>set vehicle_traj1 \<union> set pedestrian_traj1. e \<noteq> NotDict"
  by (simp add: vehicle_traj1_def pedestrian_traj1_def records_sample)

subsection \<open>The trials of one candidate speed\<close>

lemma run_loop_count:
  "snd (run_loop rs (ts, n)) = n + length (filter constraint_met rs)"
proof (induction rs arbitrary: ts n)
  case Nil
  then show ?case by simp
next
  case (Cons r rs)
  obtain pet1 pet2 tt where r: "r = (pet1, pet2, tt)" by (cases r) auto
  show ?case unfolding r by (simp add: Cons.IH)
qed

lemma constraint_met_infinite: "constraint_met (PosInf, PosInf, tt)"
  by (simp add: constraint_met_def)

lemma candidate_row_shape:
  "\<exists>avg. candidate_row execute av_speed
     = (av_speed,
        real (length (filter constraint_met
                (map (execute av_speed) [0 ..< N_SIM_RUNS_PER_AV_SPEED])))
          / real N_SIM_RUNS_PER_AV_SPEED,
        avg)"
proof -
  obtain ts n where l: "run_loop (map (execute av_speed) [0 ..< N_SIM_RUNS_PER_AV_SPEED]) ([], 0)
      = (ts, n)"
    by (cases "run_loop (map (execute av_speed) [0 ..< N_SIM_RUNS_PER_AV_SPEED]) ([], 0)") auto
  have "n = length (filter constraint_met (map (execute av_speed) [0 ..< N_SIM_RUNS_PER_AV_SPEED]))"
    using run_loop_count [of "map (execute av_speed) [0 ..< N_SIM_RUNS_PER_AV_SPEED]" "[]" 0] l
    by simp
  then show ?thesis by (simp add: candidate_row_def l)
qed

lemma candidate_in_summary:
  "av_speed \<in> set (linspace AV_MIN_SPEED_MPS AV_MAX_SPEED_MPS NUM_AV_SPEED_STEPS) \<Longrightarrow>
     candidate_row execute av_speed \<in> set (optimization_summary execute)"
  by (simp add: optimization_summary_def)

subsection \<open>The selection among eligible speeds\<close>

lemma hd_sort_key_least:
  assumes "xs \<noteq> []"
  shows "hd (sort_key f xs) \<in> set xs \<and> (\<forall>y\<in>set xs. f (hd (sort_key f xs)) \<le> f y)"
proof -
  let ?ys = "sort_key f xs"
  have ne: "?ys \<noteq> []" using assms by (metis length_sort list.size(3) length_0_conv)
  then obtain h t where ys: "?ys = h # t" by (cases ?ys) auto
  have s: "sorted (map f ?ys)" by (rule sorted_sort_key)
  have m: "set ?ys = set xs" by (rule set_sort)
  have "h \<in> set xs" using ys m by auto
  moreover have "\<forall>y\<in>set xs. f h \<le> f y"
  proof
    fix y assume "y \<in> set xs"
    then have "y \<in> set (h # t)" using m ys by simp
    then show "f h \<le> f y" using s ys by auto
  qed
  ultimately show ?thesis using ys by simp
qed

lemma eligible_key_le:
  "eligible_key (s, t, p) \<le> eligible_key (s', t', p') \<Longrightarrow>
     (t' \<noteq> - 1 \<longrightarrow> t \<noteq> - 1 \<and> t \<le> t') \<and> (t' = t \<longrightarrow> s' \<le> s)"
  by (auto simp add: eligible_key_def less_eq_prod_def less_pyfloat_def split: if_splits)

lemma select_speed_eligible:
  assumes "\<exists>row\<in>set summary. PROB_CONSTRAINT_SATISFIED_THRESHOLD \<le> fst (snd row)"
    and "\<forall>row\<in>set summary. fst row \<noteq> - 1"
  shows "\<exists>s t p. select_speed summary = Optimal_Found s (Fin t) p
      \<and> (s, p, t) \<in> set summary
      \<and> PROB_CONSTRAINT_SATISFIED_THRESHOLD \<le> p
      \<and> (\<forall>(s', p', t')\<in>set summary. PROB_CONSTRAINT_SATISFIED_THRESHOLD \<le> p' \<longrightarrow>
            (t' \<noteq> - 1 \<longrightarrow> t \<noteq> - 1 \<and> t \<le> t') \<and> (t' = t \<longrightarrow> s' \<le> s))"
proof -
  let ?el = "map (\<lambda>(av_s, prob_cs, avg_tt). (av_s, avg_tt, prob_cs))
              (filter (\<lambda>(av_s, prob_cs, avg_tt). prob_cs \<ge> PROB_CONSTRAINT_SATISFIED_THRESHOLD)
                 summary)"
  have mem: "(s, t, p) \<in> set ?el
      \<longleftrightarrow> (s, p, t) \<in> set summary \<and> PROB_CONSTRAINT_SATISFIED_THRESHOLD \<le> p" for s t p
    by (auto simp add: image_iff)
  obtain s0 p0 t0 where r0: "(s0, p0, t0) \<in> set summary"
      "PROB_CONSTRAINT_SATISFIED_THRESHOLD \<le> p0"
    using assms(1) by (metis fst_conv snd_conv prod_cases3)
  then have "(s0, t0, p0) \<in> set ?el" using mem by blast
  then have ne: "?el \<noteq> []" by (metis empty_iff list.set(1))
  obtain s t p where h: "hd (sort_key eligible_key ?el) = (s, t, p)"
    by (metis prod_cases3)
  have hin: "(s, t, p) \<in> set ?el"
    and hle: "\<forall>y\<in>set ?el. eligible_key (s, t, p) \<le> eligible_key y"
    using hd_sort_key_least [OF ne, of eligible_key] h by simp_all
  have in_s: "(s, p, t) \<in> set summary" and pr: "PROB_CONSTRAINT_SATISFIED_THRESHOLD \<le> p"
    using hin mem by blast+
  have sn: "s \<noteq> - 1" using assms(2) in_s by fastforce
  have sel: "select_speed summary = Optimal_Found s (Fin t) p"
    using ne h sn by (simp add: select_speed_def Let_def)
  have best: "\<forall>(s', p', t')\<in>set summary. PROB_CONSTRAINT_SATISFIED_THRESHOLD \<le> p' \<longrightarrow>
            (t' \<noteq> - 1 \<longrightarrow> t \<noteq> - 1 \<and> t \<le> t') \<and> (t' = t \<longrightarrow> s' \<le> s)"
  proof (intro ballI, clarify)
    fix s' p' t'
    assume "(s', p', t') \<in> set summary" "PROB_CONSTRAINT_SATISFIED_THRESHOLD \<le> p'"
    then have "(s', t', p') \<in> set ?el" using mem by blast
    then have "eligible_key (s, t, p) \<le> eligible_key (s', t', p')" using hle by blast
    then show "(t' \<noteq> - 1 \<longrightarrow> t \<noteq> - 1 \<and> t \<le> t') \<and> (t' = t \<longrightarrow> s' \<le> s)"
      by (rule eligible_key_le)
  qed
  show ?thesis using sel in_s pr best by blast
qed

lemma candidate_row_speed: "fst (candidate_row execute av_speed) = av_speed"
  using candidate_row_shape [of execute av_speed] by auto

lemma candidate_speeds:
  "linspace AV_MIN_SPEED_MPS AV_MAX_SPEED_MPS NUM_AV_SPEED_STEPS = [5, 10, 15]"
  by (simp add: linspace_def AV_MIN_SPEED_MPS_def AV_MAX_SPEED_MPS_def NUM_AV_SPEED_STEPS_def
      upt_rec)

lemma summary_speed_positive:
  "\<forall>row\<in>set (optimization_summary execute). fst row \<noteq> - 1"
  by (simp add: optimization_summary_def candidate_speeds candidate_row_speed)

lemma summary_good_execute:
  "optimization_summary good_execute = [(5, 1, - 1), (10, 1, 2), (15, 1, 2)]"
  by (simp add: optimization_summary_def candidate_speeds candidate_row_def good_execute_def
      constraint_met_def N_SIM_RUNS_PER_AV_SPEED_def PET_CONSTRAINT_THRESHOLD_def upt_rec)

subsection \<open>The trajectories after the call\<close>

lemma normalize_record_step:
  "fst (normalize (Dict d # rest)) = Dict (setdefaults d) # fst (normalize rest)"
  by (cases "normalize rest") simp

lemma normalize_length: "length (fst (normalize t)) = length t"
  by (induction t rule: normalize.induct) (simp_all only: normalize_record_step, simp_all)

lemma normalize_at:
  "i < length t \<Longrightarrow> \<forall>j\<le>i. t ! j \<noteq> NotDict \<Longrightarrow> fst (normalize t) ! i = normalized (t ! i)"
proof (induction t arbitrary: i rule: normalize.induct)
  case 1
  then show ?case by simp
next
  case (2 rest)
  then have "(NotDict # rest) ! 0 \<noteq> NotDict" by blast
  then show ?case by simp
next
  case (3 d rest)
  show ?case
  proof (cases i)
    case 0
    then show ?thesis by (simp add: normalize_record_step del: normalize.simps)
  next
    case (Suc k)
    have "k < length rest" using 3(2) Suc by simp
    moreover have "\<forall>j\<le>k. rest ! j \<noteq> NotDict"
    proof (intro allI impI)
      fix j assume "j \<le> k"
      then have "Suc j \<le> i" using Suc by simp
      then have "(Dict d # rest) ! Suc j \<noteq> NotDict" using 3(3) by blast
      then show "rest ! j \<noteq> NotDict" by simp
    qed
    ultimately have "fst (normalize rest) ! k = normalized (rest ! k)" by (rule 3(1))
    then show ?thesis using Suc by (simp add: normalize_record_step del: normalize.simps)
  qed
qed

lemma calculate_pet_state:
  "snd (calculate_pet sh veh ped poly)
     = (fst (normalize veh), if NotDict \<in> set veh then ped else fst (normalize ped))"
proof (cases "NotDict \<in> set veh \<union> set ped")
  case True
  then show ?thesis by (simp only: calculate_pet_raise_state snd_conv)
next
  case False
  then have r: "\<forall>e\<in>set veh \<union> set ped. e \<noteq> NotDict" by auto
  have nv: "normalize veh = (map normalized veh, None)"
    using r by (intro normalize_records) simp
  have np: "normalize ped = (map normalized ped, None)"
    using r by (intro normalize_records) simp
  have "snd (calculate_pet sh veh ped poly) = (map normalized veh, map normalized ped)"
    using calculate_pet_records [OF r, of sh poly] by auto
  then show ?thesis using False nv np by simp
qed

lemma normalize_point:
  assumes "i < length t" "\<forall>j\<le>i. t ! j \<noteq> NotDict" "t ! i = Dict d"
  shows "fst (normalize t) ! i
       = Dict (d\<lparr>p_speed := (if p_speed d = None then Some 0 else p_speed d),
                  p_id := (if p_id d = None then Some ''dummy'' else p_id d)\<rparr>)"
proof -
  have "fst (normalize t) ! i = Dict (setdefaults d)"
    using normalize_at [OF assms(1,2)] assms(3) by simp
  then show ?thesis by (simp only: setdefaults_fields)
qed

section \<open>The claims\<close>

text \<open>
  C5. For every pair of trajectories and every polygon, \<open>calculate_pet\<close> with the two
  trajectories swapped gives the same outcome: the same PET value, in the overlap case as
  well as outside it (and the same exception when the call raises), hence a PET of
  identical magnitude. The order of the two agents only decides which of the two
  equal-valued branches of lines 155-158 is taken.
\<close>

theorem calculate_pet_symmetric:
  "fst (calculate_pet sh veh ped poly) = fst (calculate_pet sh ped veh poly)
   \<and> map_sum id magnitude (fst (calculate_pet sh veh ped poly))
       = map_sum id magnitude (fst (calculate_pet sh ped veh poly))"
proof -
  have "fst (calculate_pet sh veh ped poly) = fst (calculate_pet sh ped veh poly)"
  proof (cases "NotDict \<in> set veh \<union> set ped")
    case True
    then have "NotDict \<in> set ped \<union> set veh" by auto
    then show ?thesis using True by (simp only: calculate_pet_non_record)
  next
    case False
    then have r1: "\<forall>e\<in>set veh \<union> set ped. e \<noteq> NotDict" by auto
    then have r2: "\<forall>e\<in>set ped \<union> set veh. e \<noteq> NotDict" by auto
    obtain rv rp where 1: "get_entry_exit_times sh veh poly = Inr rv"
        "get_entry_exit_times sh ped poly = Inr rp"
        "calculate_pet sh veh ped poly
           = (Inr (pet_of_intervals rv rp), map normalized veh, map normalized ped)"
      using calculate_pet_records [OF r1] by blast
    obtain rp' rv' where 2: "get_entry_exit_times sh ped poly = Inr rp'"
        "get_entry_exit_times sh veh poly = Inr rv'"
        "calculate_pet sh ped veh poly
           = (Inr (pet_of_intervals rp' rv'), map normalized ped, map normalized veh)"
      using calculate_pet_records [OF r2] by blast
    have "rp' = rp" "rv' = rv" using 1 2 by simp_all
    moreover have "pet_of_intervals rv rp = pet_of_intervals rp rv"
      using 1 by (intro pet_of_intervals_sym get_entry_exit_times_ok)
    ultimately show ?thesis using 1 2 by simp
  qed
  then show ?thesis by simp
qed

text \<open>
  C3. Let \<open>calculate_pet\<close> be called on two trajectories of dicts whose occupancy
  intervals, as \<open>_get_entry_exit_times\<close> extracts them, are \<open>(a, b)\<close> for the vehicle and
  \<open>(c, d)\<close> for the pedestrian. When all four bounds are present, entry \<open>\<le>\<close> exit holds in
  each interval and \<open>calculate_pet\<close> returns: the latest entry minus the earliest exit, a
  negative value, when the latest entry is before the earliest exit; otherwise, when one
  agent's exit is not after the other's entry, the later agent's entry minus the earlier
  agent's exit, which is not negative; 0 when the boundaries coincide in both directions;
  and 0 as well in the remaining case, the \<open>else\<close> of lines 159-160, where the intervals
  do not overlap and neither exit is at or before the other entry (an interval of length
  zero strictly inside the other). When any bound of either interval is absent,
  \<open>calculate_pet\<close> returns \<open>+infinity\<close>.
\<close>

theorem calculate_pet_cases:
  assumes "\<forall>e\<in>set veh \<union> set ped. e \<noteq> NotDict"
    and "get_entry_exit_times sh veh poly = Inr (a, b)"
    and "get_entry_exit_times sh ped poly = Inr (c, d)"
  shows "(a = Some ve \<and> b = Some vx \<and> c = Some pe \<and> d = Some px \<longrightarrow>
            ve \<le> vx \<and> pe \<le> px
          \<and> (max ve pe < min vx px \<longrightarrow>
               fst (calculate_pet sh veh ped poly) = Inr (Fin (max ve pe - min vx px))
               \<and> max ve pe - min vx px < 0)
          \<and> (\<not> max ve pe < min vx px \<and> vx \<le> pe \<longrightarrow>
               fst (calculate_pet sh veh ped poly) = Inr (Fin (pe - vx)) \<and> 0 \<le> pe - vx)
          \<and> (\<not> max ve pe < min vx px \<and> px \<le> ve \<longrightarrow>
               fst (calculate_pet sh veh ped poly) = Inr (Fin (ve - px)) \<and> 0 \<le> ve - px)
          \<and> (vx = pe \<and> px = ve \<longrightarrow> fst (calculate_pet sh veh ped poly) = Inr (Fin 0))
          \<and> (\<not> max ve pe < min vx px \<and> \<not> vx \<le> pe \<and> \<not> px \<le> ve \<longrightarrow>
               fst (calculate_pet sh veh ped poly) = Inr (Fin 0)))
       \<and> (a = None \<or> b = None \<or> c = None \<or> d = None \<longrightarrow>
            fst (calculate_pet sh veh ped poly) = Inr PosInf)"
proof -
  have v: "fst (calculate_pet sh veh ped poly) = Inr (pet_of_intervals (a, b) (c, d))"
    using assms by (rule calculate_pet_value)
  have absent: "a = None \<or> b = None \<or> c = None \<or> d = None \<longrightarrow>
            fst (calculate_pet sh veh ped poly) = Inr PosInf"
    using v pet_absent [of a b c d] by simp
  have present: "ve \<le> vx \<and> pe \<le> px
          \<and> (max ve pe < min vx px \<longrightarrow>
               fst (calculate_pet sh veh ped poly) = Inr (Fin (max ve pe - min vx px))
               \<and> max ve pe - min vx px < 0)
          \<and> (\<not> max ve pe < min vx px \<and> vx \<le> pe \<longrightarrow>
               fst (calculate_pet sh veh ped poly) = Inr (Fin (pe - vx)) \<and> 0 \<le> pe - vx)
          \<and> (\<not> max ve pe < min vx px \<and> px \<le> ve \<longrightarrow>
               fst (calculate_pet sh veh ped poly) = Inr (Fin (ve - px)) \<and> 0 \<le> ve - px)
          \<and> (vx = pe \<and> px = ve \<longrightarrow> fst (calculate_pet sh veh ped poly) = Inr (Fin 0))
          \<and> (\<not> max ve pe < min vx px \<and> \<not> vx \<le> pe \<and> \<not> px \<le> ve \<longrightarrow>
               fst (calculate_pet sh veh ped poly) = Inr (Fin 0))"
    if h: "a = Some ve" "b = Some vx" "c = Some pe" "d = Some px"
  proof -
    have o1: "ve \<le> vx"
      using assms(2) h by (intro get_entry_exit_times_ordered [of sh veh poly]) simp
    have o2: "pe \<le> px"
      using assms(3) h by (intro get_entry_exit_times_ordered [of sh ped poly]) simp
    have w: "fst (calculate_pet sh veh ped poly)
        = Inr (pet_of_intervals (Some ve, Some vx) (Some pe, Some px))"
      using v h by simp
    have 1: "max ve pe < min vx px \<longrightarrow>
               fst (calculate_pet sh veh ped poly) = Inr (Fin (max ve pe - min vx px))
               \<and> max ve pe - min vx px < 0"
      using pet_overlap [of ve pe vx px] w by simp
    have 2: "\<not> max ve pe < min vx px \<and> vx \<le> pe \<longrightarrow>
               fst (calculate_pet sh veh ped poly) = Inr (Fin (pe - vx)) \<and> 0 \<le> pe - vx"
      using pet_veh_first [of ve pe vx px] w by simp
    have 3: "\<not> max ve pe < min vx px \<and> px \<le> ve \<longrightarrow>
               fst (calculate_pet sh veh ped poly) = Inr (Fin (ve - px)) \<and> 0 \<le> ve - px"
      using pet_ped_first [OF o1 o2] w by simp
    have 4: "vx = pe \<and> px = ve \<longrightarrow> fst (calculate_pet sh veh ped poly) = Inr (Fin 0)"
    proof
      assume e: "vx = pe \<and> px = ve"
      then have e: "ve = vx" "pe = vx" "px = vx" using o1 o2 by linarith+
      show "fst (calculate_pet sh veh ped poly) = Inr (Fin 0)"
        using w pet_veh_first [of vx vx vx vx] unfolding e by simp
    qed
    have 5: "\<not> max ve pe < min vx px \<and> \<not> vx \<le> pe \<and> \<not> px \<le> ve \<longrightarrow>
               fst (calculate_pet sh veh ped poly) = Inr (Fin 0)"
      using pet_else [of ve pe vx px] w by simp
    show ?thesis using o1 o2 1 2 3 4 5 by blast
  qed
  show ?thesis using absent present by blast
qed

theorem calculate_pet_cases_witness:
  "fst (calculate_pet None vehicle_traj3 pedestrian_traj3 encroachment_area) = Inr (Fin (- (1/2)))
   \<and> fst (calculate_pet None vehicle_traj1 pedestrian_traj1 encroachment_area) = Inr (Fin 2)
   \<and> fst (calculate_pet None pedestrian_traj1 vehicle_traj1 encroachment_area) = Inr (Fin 2)
   \<and> fst (calculate_pet None standing_vehicle standing_vehicle encroachment_area) = Inr (Fin 0)
   \<and> fst (calculate_pet None standing_vehicle crossing_pedestrian encroachment_area) = Inr (Fin 0)
   \<and> fst (calculate_pet None vehicle_traj4 pedestrian_traj1 encroachment_area) = Inr PosInf"
proof -
  have r3: "\<forall>e\<in>set vehicle_traj3 \<union> set pedestrian_traj3. e \<noteq> NotDict"
    by (simp add: vehicle_traj3_def pedestrian_traj3_def records_sample)
  have r1: "\<forall>e\<in>set vehicle_traj1 \<union> set pedestrian_traj1. e \<noteq> NotDict"
    by (simp add: vehicle_traj1_def pedestrian_traj1_def records_sample)
  have r2: "\<forall>e\<in>set pedestrian_traj1 \<union> set vehicle_traj1. e \<noteq> NotDict"
    by (simp add: vehicle_traj1_def pedestrian_traj1_def records_sample)
  have rs: "\<forall>e\<in>set standing_vehicle \<union> set standing_vehicle. e \<noteq> NotDict"
    by (simp add: standing_vehicle_def records_sample)
  have rc: "\<forall>e\<in>set standing_vehicle \<union> set crossing_pedestrian. e \<noteq> NotDict"
    by (simp add: standing_vehicle_def crossing_pedestrian_def records_sample)
  have r4: "\<forall>e\<in>set vehicle_traj4 \<union> set pedestrian_traj1. e \<noteq> NotDict"
    by (simp add: vehicle_traj4_def pedestrian_traj1_def records_sample)
  have a: "fst (calculate_pet None vehicle_traj3 pedestrian_traj3 encroachment_area)
      = Inr (Fin (- (1/2)))"
    using calculate_pet_cases [OF r3 times_vehicle_traj3 times_pedestrian_traj3,
        of "1/2" "3/2" 1 2] by simp
  have b: "fst (calculate_pet None vehicle_traj1 pedestrian_traj1 encroachment_area) = Inr (Fin 2)"
    using calculate_pet_cases [OF r1 times_vehicle_traj1 times_pedestrian_traj1,
        of "1/2" "3/2" "7/2" "9/2"] by simp
  have c: "fst (calculate_pet None pedestrian_traj1 vehicle_traj1 encroachment_area) = Inr (Fin 2)"
    using calculate_pet_cases [OF r2 times_pedestrian_traj1 times_vehicle_traj1,
        of "7/2" "9/2" "1/2" "3/2"] by simp
  have d: "fst (calculate_pet None standing_vehicle standing_vehicle encroachment_area) = Inr (Fin 0)"
    using calculate_pet_cases [OF rs times_standing_vehicle times_standing_vehicle,
        of 1 1 1 1] by simp
  have e: "fst (calculate_pet None standing_vehicle crossing_pedestrian encroachment_area)
      = Inr (Fin 0)"
    using calculate_pet_cases [OF rc times_standing_vehicle times_crossing_pedestrian,
        of 1 1 0 2] by simp
  have f: "fst (calculate_pet None vehicle_traj4 pedestrian_traj1 encroachment_area) = Inr PosInf"
    using calculate_pet_cases [OF r4 times_vehicle_traj4 times_pedestrian_traj1,
        of 0 0 0 0] by simp
  show ?thesis using a b c d e f by simp
qed

text \<open>
  C6. For every polygon with fewer than 3 vertices: the point-in-polygon test is false for
  every point, with the manual ray casting and with the geometry library alike;
  entry/exit extraction yields \<open>(None, None)\<close> for every trajectory, whatever its
  elements; and the PET of a pair of trajectories over that polygon is \<open>+infinity\<close>.
  The PET is stated for trajectories whose elements are dicts, the inputs on which
  \<open>calculate_pet\<close> gets as far as the polygon, and, for all inputs, as the only value
  \<open>calculate_pet\<close> can return.
\<close>

theorem degenerate_polygon:
  assumes "length poly < 3"
  shows "is_inside_polygon None pt poly = Inr False
    \<and> is_inside_polygon (Some contains) pt poly = Inr False
    \<and> get_entry_exit_times sh t poly = Inr (None, None)
    \<and> ((\<forall>e\<in>set veh \<union> set ped. e \<noteq> NotDict) \<longrightarrow>
          fst (calculate_pet sh veh ped poly) = Inr PosInf)
    \<and> (\<forall>v. fst (calculate_pet sh veh ped poly) = Inr v \<longrightarrow> v = PosInf)"
proof -
  have 1: "is_inside_polygon None pt poly = Inr False"
    using assms by (rule is_inside_polygon_degenerate)
  have 2: "is_inside_polygon (Some contains) pt poly = Inr False"
    using assms by (rule is_inside_polygon_degenerate)
  have g: "get_entry_exit_times sh u poly = Inr (None, None)" for u
    using assms by (simp add: get_entry_exit_times_def)
  have r: "fst (calculate_pet sh veh ped poly) = Inr PosInf"
    if h: "\<forall>e\<in>set veh \<union> set ped. e \<noteq> NotDict"
  proof -
    obtain rv rp where c: "get_entry_exit_times sh veh poly = Inr rv"
      "calculate_pet sh veh ped poly
         = (Inr (pet_of_intervals rv rp), map normalized veh, map normalized ped)"
      using calculate_pet_records [OF h] by blast
    have "rv = (None, None)" using c(1) g [of veh] by simp
    then have "pet_of_intervals rv rp = PosInf"
      by (cases rp) (simp add: pet_absent)
    then show ?thesis using c(2) by simp
  qed
  have 5: "\<forall>v. fst (calculate_pet sh veh ped poly) = Inr v \<longrightarrow> v = PosInf"
  proof (cases "NotDict \<in> set veh \<union> set ped")
    case True
    then have "fst (calculate_pet sh veh ped poly) = Inl AttributeError"
      by (rule calculate_pet_non_record)
    then show ?thesis by simp
  next
    case False
    then have "\<forall>e\<in>set veh \<union> set ped. e \<noteq> NotDict" by auto
    then show ?thesis using r by simp
  qed
  show ?thesis using 1 2 g [of t] r 5 by blast
qed

theorem degenerate_polygon_witness:
  "is_inside_polygon None (5, 5) [(0, 0), (10, 0)] = Inr False
   \<and> is_inside_polygon (Some (\<lambda>vs p. True)) (5, 5) [(0, 0), (10, 0)] = Inr False
   \<and> get_entry_exit_times None vehicle_traj1 [(0, 0), (10, 0)] = Inr (None, None)
   \<and> fst (calculate_pet None vehicle_traj1 pedestrian_traj1 [(0, 0), (10, 0)]) = Inr PosInf"
proof -
  have l: "length [(0, 0), (10, 0) :: point] < 3" by simp
  have r: "\<forall>e\<in>set vehicle_traj1 \<union> set pedestrian_traj1. e \<noteq> NotDict"
    by (simp add: vehicle_traj1_def pedestrian_traj1_def sample_def)
  show ?thesis
    using degenerate_polygon [OF l, of "(5, 5)" "\<lambda>vs p. True" None vehicle_traj1
        vehicle_traj1 pedestrian_traj1] r
    by blast
qed

text \<open>
  C9. \<open>calculate_pet\<close> changes both of its input trajectories, whatever the polygon and
  the outcome of the call. It leaves every point of both trajectories with \<open>'speed': 0\<close>
  added when it had no \<open>'speed'\<close> key and \<open>'id': 'dummy'\<close> added when it had no \<open>'id'\<close> key,
  its other keys and values as they were: every point of both trajectories when all
  elements are dicts, and otherwise the points that the loop of lines 134-137 passes before
  it meets an element that is not a dict (for the pedestrian trajectory, when the vehicle
  trajectory has no such element). So, on trajectories of dicts, a trajectory with a point
  that misses one of the two keys is not left unchanged.
\<close>

theorem calculate_pet_mutates_inputs:
  "\<exists>veh' ped'. snd (calculate_pet sh veh ped poly) = (veh', ped')
    \<and> length veh' = length veh \<and> length ped' = length ped
    \<and> (\<forall>i d. i < length veh \<and> (\<forall>j\<le>i. veh ! j \<noteq> NotDict) \<and> veh ! i = Dict d \<longrightarrow>
          veh' ! i = Dict (d\<lparr>p_speed := (if p_speed d = None then Some 0 else p_speed d),
                              p_id := (if p_id d = None then Some ''dummy'' else p_id d)\<rparr>))
    \<and> (\<forall>i d. NotDict \<notin> set veh
              \<and> i < length ped \<and> (\<forall>j\<le>i. ped ! j \<noteq> NotDict) \<and> ped ! i = Dict d \<longrightarrow>
          ped' ! i = Dict (d\<lparr>p_speed := (if p_speed d = None then Some 0 else p_speed d),
                              p_id := (if p_id d = None then Some ''dummy'' else p_id d)\<rparr>))
    \<and> (NotDict \<notin> set veh \<union> set ped \<longrightarrow>
          ((\<exists>d. Dict d \<in> set veh \<and> (p_speed d = None \<or> p_id d = None)) \<longrightarrow> veh' \<noteq> veh)
        \<and> ((\<exists>d. Dict d \<in> set ped \<and> (p_speed d = None \<or> p_id d = None)) \<longrightarrow> ped' \<noteq> ped))"
proof (intro exI conjI)
  let ?v = "fst (normalize veh)"
  let ?p = "if NotDict \<in> set veh then ped else fst (normalize ped)"
  show "snd (calculate_pet sh veh ped poly) = (?v, ?p)" by (rule calculate_pet_state)
  show "length ?v = length veh" by (rule normalize_length)
  show "length ?p = length ped" by (simp add: normalize_length)
  show "\<forall>i d. i < length veh \<and> (\<forall>j\<le>i. veh ! j \<noteq> NotDict) \<and> veh ! i = Dict d \<longrightarrow>
          ?v ! i = Dict (d\<lparr>p_speed := (if p_speed d = None then Some 0 else p_speed d),
                            p_id := (if p_id d = None then Some ''dummy'' else p_id d)\<rparr>)"
    using normalize_point by blast
  show "\<forall>i d. NotDict \<notin> set veh
              \<and> i < length ped \<and> (\<forall>j\<le>i. ped ! j \<noteq> NotDict) \<and> ped ! i = Dict d \<longrightarrow>
          ?p ! i = Dict (d\<lparr>p_speed := (if p_speed d = None then Some 0 else p_speed d),
                            p_id := (if p_id d = None then Some ''dummy'' else p_id d)\<rparr>)"
  proof (intro allI impI)
    fix i d
    assume h: "NotDict \<notin> set veh
              \<and> i < length ped \<and> (\<forall>j\<le>i. ped ! j \<noteq> NotDict) \<and> ped ! i = Dict d"
    then have "?p = fst (normalize ped)" by simp
    then show "?p ! i = Dict (d\<lparr>p_speed := (if p_speed d = None then Some 0 else p_speed d),
                            p_id := (if p_id d = None then Some ''dummy'' else p_id d)\<rparr>)"
      using normalize_point [of i ped d] h by simp
  qed
  show "NotDict \<notin> set veh \<union> set ped \<longrightarrow>
          ((\<exists>d. Dict d \<in> set veh \<and> (p_speed d = None \<or> p_id d = None)) \<longrightarrow> ?v \<noteq> veh)
        \<and> ((\<exists>d. Dict d \<in> set ped \<and> (p_speed d = None \<or> p_id d = None)) \<longrightarrow> ?p \<noteq> ped)"
  proof
    assume n: "NotDict \<notin> set veh \<union> set ped"
    then have nv: "normalize veh = (map normalized veh, None)"
      by (intro normalize_records) auto
    have np: "normalize ped = (map normalized ped, None)"
      using n by (intro normalize_records) auto
    have v: "?v = map normalized veh" using nv by simp
    have p: "?p = map normalized ped" using n np by simp
    show "((\<exists>d. Dict d \<in> set veh \<and> (p_speed d = None \<or> p_id d = None)) \<longrightarrow> ?v \<noteq> veh)
        \<and> ((\<exists>d. Dict d \<in> set ped \<and> (p_speed d = None \<or> p_id d = None)) \<longrightarrow> ?p \<noteq> ped)"
      unfolding v p using map_normalized_changes by blast
  qed
qed

theorem calculate_pet_mutates_inputs_witness:
  "snd (calculate_pet None [sample 0 5 5] [with_speed 1 5 5 3] encroachment_area)
     = ([Dict \<lparr>p_time = Some 0, p_x = Some 5, p_y = Some 5, p_speed = Some 0,
               p_id = Some ''dummy''\<rparr>],
        [Dict \<lparr>p_time = Some 1, p_x = Some 5, p_y = Some 5, p_speed = Some 3,
               p_id = Some ''dummy''\<rparr>])
   \<and> fst (snd (calculate_pet None [sample 0 5 5] [with_speed 1 5 5 3] encroachment_area))
       \<noteq> [sample 0 5 5]
   \<and> snd (snd (calculate_pet None [sample 0 5 5] [with_speed 1 5 5 3] encroachment_area))
       \<noteq> [with_speed 1 5 5 3]"
proof -
  let ?v = "[sample 0 5 5]" and ?p = "[with_speed 1 5 5 3]"
  have r: "NotDict \<notin> set ?v \<union> set ?p" by (simp add: sample_def with_speed_def)
  then have rv: "NotDict \<notin> set ?v" by simp
  obtain veh' ped' where h:
    "snd (calculate_pet None ?v ?p encroachment_area) = (veh', ped')"
    "length veh' = length ?v" "length ped' = length ?p"
    "\<forall>i d. i < length ?v \<and> (\<forall>j\<le>i. ?v ! j \<noteq> NotDict) \<and> ?v ! i = Dict d \<longrightarrow>
          veh' ! i = Dict (d\<lparr>p_speed := (if p_speed d = None then Some 0 else p_speed d),
                              p_id := (if p_id d = None then Some ''dummy'' else p_id d)\<rparr>)"
    "\<forall>i d. NotDict \<notin> set ?v
              \<and> i < length ?p \<and> (\<forall>j\<le>i. ?p ! j \<noteq> NotDict) \<and> ?p ! i = Dict d \<longrightarrow>
          ped' ! i = Dict (d\<lparr>p_speed := (if p_speed d = None then Some 0 else p_speed d),
                              p_id := (if p_id d = None then Some ''dummy'' else p_id d)\<rparr>)"
    "NotDict \<notin> set ?v \<union> set ?p \<longrightarrow>
          ((\<exists>d. Dict d \<in> set ?v \<and> (p_speed d = None \<or> p_id d = None)) \<longrightarrow> veh' \<noteq> ?v)
        \<and> ((\<exists>d. Dict d \<in> set ?p \<and> (p_speed d = None \<or> p_id d = None)) \<longrightarrow> ped' \<noteq> ?p)"
    using calculate_pet_mutates_inputs [of None ?v ?p encroachment_area] by blast
  have "veh' ! 0 = Dict \<lparr>p_time = Some 0, p_x = Some 5, p_y = Some 5, p_speed = Some 0,
               p_id = Some ''dummy''\<rparr>"
    using h(4) by (simp add: sample_def)
  moreover have "length veh' = 1" using h(2) by simp
  ultimately have v: "veh' = [Dict \<lparr>p_time = Some 0, p_x = Some 5, p_y = Some 5,
      p_speed = Some 0, p_id = Some ''dummy''\<rparr>]"
    by (cases veh') simp_all
  have "ped' ! 0 = Dict \<lparr>p_time = Some 1, p_x = Some 5, p_y = Some 5, p_speed = Some 3,
               p_id = Some ''dummy''\<rparr>"
    using h(5) rv by (simp add: with_speed_def)
  moreover have "length ped' = 1" using h(3) by simp
  ultimately have p: "ped' = [Dict \<lparr>p_time = Some 1, p_x = Some 5, p_y = Some 5,
      p_speed = Some 3, p_id = Some ''dummy''\<rparr>]"
    by (cases ped') simp_all
  have nv: "veh' \<noteq> ?v" using h(6) r by (simp add: sample_def)
  have np: "ped' \<noteq> ?p" using h(6) r by (simp add: with_speed_def)
  show ?thesis using h(1) v p nv np by simp
qed

text \<open>
  C10. Whenever some element of either trajectory is not a dict, \<open>calculate_pet\<close> raises
  \<open>AttributeError\<close> out of the \<open>setdefault\<close> loop and returns no PET value, and its whole
  outcome is the same for every polygon and geometry library: extraction plays no part in
  it. So \<open>calculate_pet\<close> returns a value exactly when every element of both trajectories
  is a dict. \<open>_get_entry_exit_times\<close> on its own does handle such an element:
  \<open>get_coords_time\<close> raises \<open>TypeError\<close> on it, and a trajectory that starts with one yields
  \<open>(None, None)\<close>. What \<open>calculate_pet\<close> turns into \<open>+infinity\<close> is a dict with a required
  key missing: when both trajectories consist of dicts and one of them has such a sample
  with no inside-to-outside step among the samples before it, the PET is \<open>+infinity\<close> in
  either order of the agents.
\<close>

theorem non_record_raises:
  "(NotDict \<in> set veh \<union> set ped \<longrightarrow>
       fst (calculate_pet sh veh ped poly) = Inl AttributeError
     \<and> calculate_pet sh veh ped poly = calculate_pet sh' veh ped poly')
   \<and> ((\<exists>v. fst (calculate_pet sh veh ped poly) = Inr v) \<longleftrightarrow> NotDict \<notin> set veh \<union> set ped)
   \<and> get_coords_time NotDict = Inl TypeError
   \<and> get_entry_exit_times sh (NotDict # t) poly = Inr (None, None)
   \<and> (NotDict \<notin> set veh \<union> set ped \<and> veh = pre @ bad # post
        \<and> (\<forall>e\<in>set pre. \<not> malformed e) \<and> malformed bad
        \<and> \<not> leaves (map (sample_inside sh poly) pre) \<longrightarrow>
          fst (calculate_pet sh veh ped poly) = Inr PosInf
        \<and> fst (calculate_pet sh ped veh poly) = Inr PosInf)"
proof -
  have 1: "NotDict \<in> set veh \<union> set ped \<longrightarrow>
       fst (calculate_pet sh veh ped poly) = Inl AttributeError
     \<and> calculate_pet sh veh ped poly = calculate_pet sh' veh ped poly'"
  proof
    assume h: "NotDict \<in> set veh \<union> set ped"
    show "fst (calculate_pet sh veh ped poly) = Inl AttributeError
     \<and> calculate_pet sh veh ped poly = calculate_pet sh' veh ped poly'"
      by (simp add: calculate_pet_raise_state [OF h])
  qed
  have 2: "(\<exists>v. fst (calculate_pet sh veh ped poly) = Inr v) \<longleftrightarrow> NotDict \<notin> set veh \<union> set ped"
  proof (cases "NotDict \<in> set veh \<union> set ped")
    case True
    then have "fst (calculate_pet sh veh ped poly) = Inl AttributeError"
      by (rule calculate_pet_non_record)
    then show ?thesis using True by simp
  next
    case False
    then have "\<forall>e\<in>set veh \<union> set ped. e \<noteq> NotDict" by auto
    then have "\<exists>v. fst (calculate_pet sh veh ped poly) = Inr v"
      using calculate_pet_records [of veh ped sh poly] by auto
    then show ?thesis using False by simp
  qed
  have 3: "get_coords_time NotDict = Inl TypeError" by simp
  have 4: "get_entry_exit_times sh (NotDict # t) poly = Inr (None, None)"
    by (rule non_record_first)
  have 5: "NotDict \<notin> set veh \<union> set ped \<and> veh = pre @ bad # post
        \<and> (\<forall>e\<in>set pre. \<not> malformed e) \<and> malformed bad
        \<and> \<not> leaves (map (sample_inside sh poly) pre) \<longrightarrow>
          fst (calculate_pet sh veh ped poly) = Inr PosInf
        \<and> fst (calculate_pet sh ped veh poly) = Inr PosInf"
  proof
    assume h: "NotDict \<notin> set veh \<union> set ped \<and> veh = pre @ bad # post
        \<and> (\<forall>e\<in>set pre. \<not> malformed e) \<and> malformed bad
        \<and> \<not> leaves (map (sample_inside sh poly) pre)"
    then have r: "\<forall>e\<in>set (pre @ bad # post) \<union> set ped. e \<noteq> NotDict" by auto
    show "fst (calculate_pet sh veh ped poly) = Inr PosInf
        \<and> fst (calculate_pet sh ped veh poly) = Inr PosInf"
      using malformed_record_absorbed [OF r, of sh poly] h by simp
  qed
  show ?thesis using 1 2 3 4 5 by blast
qed

theorem non_record_raises_witness:
  "fst (calculate_pet None [sample 0 5 5, NotDict] pedestrian_traj1 encroachment_area)
     = Inl AttributeError
   \<and> fst (calculate_pet None vehicle_traj1 [NotDict] encroachment_area) = Inl AttributeError
   \<and> get_entry_exit_times None [NotDict, sample 0 5 5] encroachment_area = Inr (None, None)
   \<and> fst (calculate_pet None [sample 0 5 5, no_time 5 5, sample 2 15 5] pedestrian_traj1
        encroachment_area) = Inr PosInf"
proof -
  have a: "fst (calculate_pet None [sample 0 5 5, NotDict] pedestrian_traj1 encroachment_area)
     = Inl AttributeError"
    using non_record_raises [of "[sample 0 5 5, NotDict]" pedestrian_traj1 None
        encroachment_area None encroachment_area "[]" "[]" NotDict "[]"]
    by simp
  have b: "fst (calculate_pet None vehicle_traj1 [NotDict] encroachment_area) = Inl AttributeError"
    using non_record_raises [of vehicle_traj1 "[NotDict]" None
        encroachment_area None encroachment_area "[]" "[]" NotDict "[]"]
    by simp
  have c: "get_entry_exit_times None [NotDict, sample 0 5 5] encroachment_area = Inr (None, None)"
    using non_record_raises [of "[]" "[]" None encroachment_area None encroachment_area
        "[sample 0 5 5]" "[]" NotDict "[]"]
    by simp
  let ?v = "[sample 0 5 5, no_time 5 5, sample 2 15 5]"
  have nd: "NotDict \<notin> set ?v \<union> set pedestrian_traj1"
    by (simp add: pedestrian_traj1_def sample_def no_time_def)
  have eq: "?v = [sample 0 5 5] @ no_time 5 5 # [sample 2 15 5]" by simp
  have pre: "\<forall>e\<in>set [sample 0 5 5]. \<not> malformed e"
    by (simp add: malformed_def sample_def)
  have m: "malformed (no_time 5 5)"
    by (simp add: malformed_def no_time_def)
  have nl: "\<not> leaves (map (sample_inside None encroachment_area) [sample 0 5 5])" by simp
  have d: "fst (calculate_pet None ?v pedestrian_traj1 encroachment_area) = Inr PosInf"
    using non_record_raises [of ?v pedestrian_traj1
        None encroachment_area None encroachment_area "[]" "[sample 0 5 5]" "no_time 5 5"
        "[sample 2 15 5]"] nd eq pre m nl
    by blast
  show ?thesis using a b c d by simp
qed

text \<open>
  C7. For the polygon \<open>[(0,0),(10,0),(10,10),(0,10)]\<close>, the vehicle samples
  \<open>{t=0,(-5,5)}, {t=1,(5,5)}, {t=2,(15,5)}\<close> and the pedestrian samples
  \<open>{t=3,(5,-5)}, {t=4,(5,5)}, {t=5,(5,15)}\<close>, extraction yields the vehicle interval
  \<open>(0.5, 1.5)\<close> and the pedestrian interval \<open>(3.5, 4.5)\<close>, the midpoints of the sample times
  around each change of membership, and \<open>calculate_pet\<close> returns \<open>2.0\<close>. This holds with the
  manual ray casting, and with a geometry library that puts \<open>(5,5)\<close> inside the square and
  the four other sample positions outside.
\<close>

theorem self_test_scenario:
  assumes "case sh of
             None \<Rightarrow> True
           | Some contains \<Rightarrow>
               contains encroachment_area (5, 5)
               \<and> \<not> contains encroachment_area (- 5, 5) \<and> \<not> contains encroachment_area (15, 5)
               \<and> \<not> contains encroachment_area (5, - 5) \<and> \<not> contains encroachment_area (5, 15)"
  shows "encroachment_area = [(0, 0), (10, 0), (10, 10), (0, 10)]
    \<and> vehicle_traj1 = [sample 0 (- 5) 5, sample 1 5 5, sample 2 15 5]
    \<and> pedestrian_traj1 = [sample 3 5 (- 5), sample 4 5 5, sample 5 5 15]
    \<and> get_entry_exit_times sh vehicle_traj1 encroachment_area = Inr (Some (1/2), Some (3/2))
    \<and> get_entry_exit_times sh pedestrian_traj1 encroachment_area = Inr (Some (7/2), Some (9/2))
    \<and> fst (calculate_pet sh vehicle_traj1 pedestrian_traj1 encroachment_area) = Inr (Fin 2)"
proof -
  have v: "get_entry_exit_times sh vehicle_traj1 encroachment_area = Inr (Some (1/2), Some (3/2))"
  proof (cases sh)
    case None
    then show ?thesis by (simp only: times_vehicle_traj1)
  next
    case (Some contains)
    then show ?thesis using assms by (simp add: times_vehicle_traj1_library)
  qed
  have p: "get_entry_exit_times sh pedestrian_traj1 encroachment_area
      = Inr (Some (7/2), Some (9/2))"
  proof (cases sh)
    case None
    then show ?thesis by (simp only: times_pedestrian_traj1)
  next
    case (Some contains)
    then show ?thesis using assms by (simp add: times_pedestrian_traj1_library)
  qed
  have "pet_of_intervals (Some (1/2), Some (3/2)) (Some (7/2), Some (9/2)) = Fin 2"
    by (simp add: pet_of_intervals_def pet_of_times_def)
  then have c: "fst (calculate_pet sh vehicle_traj1 pedestrian_traj1 encroachment_area)
      = Inr (Fin 2)"
    using calculate_pet_value [OF records_traj1 v p] by simp
  show ?thesis
    using v p c by (simp add: encroachment_area_def vehicle_traj1_def pedestrian_traj1_def)
qed

theorem self_test_scenario_witness:
  "get_entry_exit_times None vehicle_traj1 encroachment_area = Inr (Some (1/2), Some (3/2))
   \<and> get_entry_exit_times None pedestrian_traj1 encroachment_area = Inr (Some (7/2), Some (9/2))
   \<and> fst (calculate_pet None vehicle_traj1 pedestrian_traj1 encroachment_area) = Inr (Fin 2)
   \<and> fst (calculate_pet (Some open_square) vehicle_traj1 pedestrian_traj1 encroachment_area)
       = Inr (Fin 2)"
proof -
  have a: "get_entry_exit_times None vehicle_traj1 encroachment_area = Inr (Some (1/2), Some (3/2))
   \<and> get_entry_exit_times None pedestrian_traj1 encroachment_area = Inr (Some (7/2), Some (9/2))
   \<and> fst (calculate_pet None vehicle_traj1 pedestrian_traj1 encroachment_area) = Inr (Fin 2)"
    using self_test_scenario [of None] by simp
  have b: "fst (calculate_pet (Some open_square) vehicle_traj1 pedestrian_traj1 encroachment_area)
       = Inr (Fin 2)"
    using self_test_scenario [of "Some open_square"] by (simp add: open_square_def)
  show ?thesis using a b by simp
qed

text \<open>
  C8. For every candidate speed: when each of its \<open>N_SIM_RUNS_PER_AV_SPEED\<close> trials returns
  \<open>+infinity\<close> for both monitored PET values (as a degraded trial does), every trial counts
  as meeting the PET constraint and the probability the optimizer records for the
  candidate, the second component of its row of \<open>optimization_summary\<close>, is exactly 1.
\<close>

theorem all_infinite_probability_one:
  assumes "\<forall>i < N_SIM_RUNS_PER_AV_SPEED.
             fst (execute av_speed i) = PosInf \<and> fst (snd (execute av_speed i)) = PosInf"
  shows "(\<forall>i < N_SIM_RUNS_PER_AV_SPEED. constraint_met (execute av_speed i))
    \<and> (\<exists>avg. candidate_row execute av_speed = (av_speed, 1, avg))
    \<and> (av_speed \<in> set (linspace AV_MIN_SPEED_MPS AV_MAX_SPEED_MPS NUM_AV_SPEED_STEPS) \<longrightarrow>
          (\<exists>avg. (av_speed, 1, avg) \<in> set (optimization_summary execute)))"
proof -
  have m: "constraint_met (execute av_speed i)" if "i < N_SIM_RUNS_PER_AV_SPEED" for i
  proof -
    obtain pet1 pet2 tt where e: "execute av_speed i = (pet1, pet2, tt)"
      by (cases "execute av_speed i") auto
    then have "pet1 = PosInf" "pet2 = PosInf" using assms that by auto
    then show ?thesis using e by (simp add: constraint_met_infinite)
  qed
  then have "\<forall>r\<in>set (map (execute av_speed) [0 ..< N_SIM_RUNS_PER_AV_SPEED]). constraint_met r"
    by auto
  then have "filter constraint_met (map (execute av_speed) [0 ..< N_SIM_RUNS_PER_AV_SPEED])
      = map (execute av_speed) [0 ..< N_SIM_RUNS_PER_AV_SPEED]"
    by (simp only: filter_True)
  then have "real (length (filter constraint_met
                (map (execute av_speed) [0 ..< N_SIM_RUNS_PER_AV_SPEED])))
          / real N_SIM_RUNS_PER_AV_SPEED = 1"
    by (simp add: N_SIM_RUNS_PER_AV_SPEED_def)
  then have r: "\<exists>avg. candidate_row execute av_speed = (av_speed, 1, avg)"
    using candidate_row_shape [of execute av_speed] by simp
  have s: "av_speed \<in> set (linspace AV_MIN_SPEED_MPS AV_MAX_SPEED_MPS NUM_AV_SPEED_STEPS) \<longrightarrow>
          (\<exists>avg. (av_speed, 1, avg) \<in> set (optimization_summary execute))"
    using r candidate_in_summary [of av_speed execute] by auto
  show ?thesis using m r s by blast
qed

theorem all_infinite_probability_one_witness:
  "constraint_met degraded
   \<and> candidate_row (\<lambda>v i. degraded) 10 = (10, 1, - 1)
   \<and> (10, 1, - 1) \<in> set (optimization_summary (\<lambda>v i. degraded))"
proof -
  have h: "\<forall>i < N_SIM_RUNS_PER_AV_SPEED.
             fst ((\<lambda>v i. degraded) (10 :: real) i) = PosInf
             \<and> fst (snd ((\<lambda>v i. degraded) (10 :: real) i)) = PosInf"
    by (simp add: degraded_def)
  have n: "(0 :: nat) < N_SIM_RUNS_PER_AV_SPEED" by (simp add: N_SIM_RUNS_PER_AV_SPEED_def)
  have c: "(10 :: real) \<in> set (linspace AV_MIN_SPEED_MPS AV_MAX_SPEED_MPS NUM_AV_SPEED_STEPS)"
    by (simp add: linspace_def AV_MIN_SPEED_MPS_def AV_MAX_SPEED_MPS_def NUM_AV_SPEED_STEPS_def
        upt_rec)
  have t: "snd (snd (candidate_row (\<lambda>v i. degraded) 10)) = - 1"
    by (simp add: candidate_row_def degraded_def N_SIM_RUNS_PER_AV_SPEED_def upt_rec
        constraint_met_def split: prod.splits)
  from all_infinite_probability_one [OF h]
  have a: "\<forall>i < N_SIM_RUNS_PER_AV_SPEED. constraint_met degraded"
    and b: "\<exists>avg. candidate_row (\<lambda>v i. degraded) 10 = (10, 1, avg)"
    and d: "\<exists>avg. (10, 1, avg) \<in> set (optimization_summary (\<lambda>v i. degraded))"
    using c by blast+
  have 1: "constraint_met degraded" using a n by blast
  have 2: "candidate_row (\<lambda>v i. degraded) 10 = (10, 1, - 1)" using b t by auto
  have 3: "(10, 1, - 1) \<in> set (optimization_summary (\<lambda>v i. degraded))"
    using 2 candidate_in_summary [OF c, of "\<lambda>v i. degraded"] by simp
  show ?thesis using 1 2 3 by simp
qed

text \<open>
  C4. When some candidate reaches the target probability, the optimizer reports a candidate
  of the summary that reaches it, and among all candidates that reach it this one has
  the smallest defined average traversal time: if any of them has a defined time, so has
  the selected one and its time is not larger; a candidate whose time is the sentinel
  \<open>-1.0\<close> is selected only when all of them carry the sentinel; and among candidates with
  the same time as the selected one, the selected one has the largest speed.
\<close>

theorem eligible_selection:
  assumes "\<exists>row\<in>set (optimization_summary execute).
             PROB_CONSTRAINT_SATISFIED_THRESHOLD \<le> fst (snd row)"
  shows "\<exists>s t p. run_optimizer execute = Optimal_Found s (Fin t) p
      \<and> (s, p, t) \<in> set (optimization_summary execute)
      \<and> PROB_CONSTRAINT_SATISFIED_THRESHOLD \<le> p
      \<and> (\<forall>(s', p', t')\<in>set (optimization_summary execute).
            PROB_CONSTRAINT_SATISFIED_THRESHOLD \<le> p' \<longrightarrow>
              (t' \<noteq> - 1 \<longrightarrow> t \<noteq> - 1 \<and> t \<le> t') \<and> (t' = t \<longrightarrow> s' \<le> s))"
  unfolding run_optimizer_def
  using assms summary_speed_positive by (rule select_speed_eligible)

theorem eligible_selection_witness:
  "optimization_summary good_execute = [(5, 1, - 1), (10, 1, 2), (15, 1, 2)]
   \<and> run_optimizer good_execute = Optimal_Found 15 (Fin 2) 1"
proof -
  have e: "\<exists>row\<in>set (optimization_summary good_execute).
             PROB_CONSTRAINT_SATISFIED_THRESHOLD \<le> fst (snd row)"
    by (simp add: summary_good_execute PROB_CONSTRAINT_SATISFIED_THRESHOLD_def)
  obtain s t p where h: "run_optimizer good_execute = Optimal_Found s (Fin t) p"
      "(s, p, t) \<in> set (optimization_summary good_execute)"
      "\<forall>(s', p', t')\<in>set (optimization_summary good_execute).
            PROB_CONSTRAINT_SATISFIED_THRESHOLD \<le> p' \<longrightarrow>
              (t' \<noteq> - 1 \<longrightarrow> t \<noteq> - 1 \<and> t \<le> t') \<and> (t' = t \<longrightarrow> s' \<le> s)"
    using eligible_selection [OF e] by blast
  have "(t \<noteq> - 1 \<and> t \<le> 2) \<and> (2 = t \<longrightarrow> 15 \<le> s)"
    using h(3) by (simp add: summary_good_execute PROB_CONSTRAINT_SATISFIED_THRESHOLD_def)
  then have "s = 15 \<and> t = 2 \<and> p = 1"
    using h(2) by (auto simp add: summary_good_execute)
  then show ?thesis using h(1) summary_good_execute by simp
qed

text \<open>
  C2, as it is stated, does not hold. The scan of \<open>_get_entry_exit_times\<close> stops at the
  first step from inside to outside, so a malformed sample after that step is never looked
  at: the trajectory below has one at index 2, and extraction yields the interval
  \<open>(0, 0.5)\<close> and \<open>calculate_pet\<close> the finite PET \<open>3.0\<close>. And for a sample that is not a
  dict, \<open>calculate_pet\<close> raises \<open>AttributeError\<close> and returns no PET.
\<close>

theorem malformed_after_exit:
  "malformed (exits_then_malformed ! 2)
   \<and> get_entry_exit_times None exits_then_malformed encroachment_area
       = Inr (Some 0, Some (1/2))
   \<and> fst (calculate_pet None exits_then_malformed pedestrian_traj1 encroachment_area)
       = Inr (Fin 3)
   \<and> malformed NotDict
   \<and> fst (calculate_pet None [NotDict] pedestrian_traj1 encroachment_area)
       = Inl AttributeError"
proof -
  have m: "malformed (exits_then_malformed ! 2)"
    by (simp add: exits_then_malformed_def no_time_def malformed_def)
  have g: "get_entry_exit_times None exits_then_malformed encroachment_area
       = Inr (Some 0, Some (1/2))"
    by (simp add: extraction_defs exits_then_malformed_def sample_def no_time_def
        encroachment_area_def)
  have r: "\<forall>e\<in>set exits_then_malformed \<union> set pedestrian_traj1. e \<noteq> NotDict"
    by (simp add: exits_then_malformed_def pedestrian_traj1_def sample_def no_time_def)
  have "pet_of_intervals (Some 0, Some (1/2)) (Some (7/2), Some (9/2)) = Fin 3"
    by (simp add: pet_of_intervals_def pet_of_times_def)
  then have c: "fst (calculate_pet None exits_then_malformed pedestrian_traj1 encroachment_area)
       = Inr (Fin 3)"
    using calculate_pet_value [OF r g times_pedestrian_traj1] by simp
  have n: "malformed NotDict" by (simp add: malformed_def)
  have a: "fst (calculate_pet None [NotDict] pedestrian_traj1 encroachment_area)
       = Inl AttributeError"
    by (rule calculate_pet_non_record) simp
  show ?thesis using m g c n a by simp
qed

text \<open>
  C2, amended. For every trajectory in which a malformed sample (a dict without \<open>'time'\<close>,
  \<open>'x'\<close> or \<open>'y'\<close>, or an element that is not a dict) is reached with no step from inside
  to outside among the samples before it, extraction yields \<open>(None, None)\<close>; and when all
  elements of both trajectories are dicts, the PET of a pair involving that trajectory is
  \<open>+infinity\<close>, in either order of the two agents.
\<close>

theorem malformed_before_exit:
  assumes "\<forall>e\<in>set pre. \<not> malformed e" and "malformed bad"
    and "\<not> leaves (map (sample_inside sh poly) pre)"
  shows "get_entry_exit_times sh (pre @ bad # post) poly = Inr (None, None)
    \<and> ((\<forall>e\<in>set (pre @ bad # post) \<union> set other. e \<noteq> NotDict) \<longrightarrow>
          fst (calculate_pet sh (pre @ bad # post) other poly) = Inr PosInf
          \<and> fst (calculate_pet sh other (pre @ bad # post) poly) = Inr PosInf)"
proof -
  have g: "get_entry_exit_times sh (pre @ bad # post) poly = Inr (None, None)"
    using assms by (rule extraction_reaches_malformed)
  have c: "fst (calculate_pet sh (pre @ bad # post) other poly) = Inr PosInf
          \<and> fst (calculate_pet sh other (pre @ bad # post) poly) = Inr PosInf"
    if r: "\<forall>e\<in>set (pre @ bad # post) \<union> set other. e \<noteq> NotDict"
    using malformed_record_absorbed [OF r assms] by simp
  show ?thesis using g c by blast
qed

theorem malformed_before_exit_witness:
  "get_entry_exit_times None enters_then_malformed encroachment_area = Inr (None, None)
   \<and> fst (calculate_pet None enters_then_malformed pedestrian_traj1 encroachment_area)
       = Inr PosInf
   \<and> fst (calculate_pet None pedestrian_traj1 enters_then_malformed encroachment_area)
       = Inr PosInf"
proof -
  let ?pre = "[sample 0 (- 5) 5, sample 1 5 5]"
  have eq: "enters_then_malformed = ?pre @ no_time 15 5 # [sample 3 15 5]"
    by (simp add: enters_then_malformed_def)
  have pre: "\<forall>e\<in>set ?pre. \<not> malformed e" by (simp add: malformed_def sample_def)
  have m: "malformed (no_time 15 5)" by (simp add: malformed_def no_time_def)
  have nl: "\<not> leaves (map (sample_inside None encroachment_area) ?pre)"
    by (simp add: sample_inside_def sample_def is_inside_polygon_def encroachment_area_def upt_rec)
  have r: "\<forall>e\<in>set (?pre @ no_time 15 5 # [sample 3 15 5]) \<union> set pedestrian_traj1. e \<noteq> NotDict"
    by (simp add: pedestrian_traj1_def sample_def no_time_def)
  show ?thesis
    using malformed_before_exit [OF pre m nl, of "[sample 3 15 5]" pedestrian_traj1] r
    unfolding eq by blast
qed

text \<open>
  C1. The best compromise of lines 148-150 is the row with the largest key
  \<open>(prob_cs, -avg_tt if avg_tt != -1.0 else inf)\<close>. Among rows of equal probability the
  key of a row without a measured traversal time, \<open>inf\<close>, is the largest, so such a row is
  preferred to every row with a measured time. With the trial outcomes \<open>bad_execute\<close> the
  summary has the rows \<open>(5, 0.6, 3.0)\<close>, \<open>(10, 0.6, -1.0)\<close> and \<open>(15, 0.0, 2.0)\<close>, and the
  optimizer reports, as not meeting the constraint, the best compromise
  \<open>(10, 0.6, -1.0)\<close>, not \<open>(5, 0.6, 3.0)\<close>.
\<close>

theorem compromise_prefers_undefined_metric:
  "optimization_summary bad_execute = [(5, 3/5, 3), (10, 3/5, - 1), (15, 0, 2)]
   \<and> run_optimizer bad_execute = No_Speed_Found (Some (10, 3/5, - 1))"
proof -
  have s: "optimization_summary bad_execute = [(5, 3/5, 3), (10, 3/5, - 1), (15, 0, 2)]"
    by (simp add: optimization_summary_def candidate_speeds candidate_row_def bad_execute_def
        constraint_met_def N_SIM_RUNS_PER_AV_SPEED_def PET_CONSTRAINT_THRESHOLD_def upt_rec)
  have "select_speed [(5, 3/5, 3), (10, 3/5, - 1), (15, 0, 2)]
      = No_Speed_Found (Some (10, 3/5, - 1))"
    by (simp add: select_speed_def PROB_CONSTRAINT_SATISFIED_THRESHOLD_def compromise_key_def
        less_pyfloat_def)
  then show ?thesis using s by (simp add: run_optimizer_def)
qed

end
